theory Spec2Isabelle
  imports Complex_Main "HOL-Library.Sublist" "HOL-Library.Char_ord"
    "HOL-Library.List_Lexorder" "HOL-Library.Product_Lexorder" "HOL-Library.Multiset"
begin

section \<open>Strings\<close>

text \<open>
  Python strings are modelled as \<^typ>\<open>string\<close>, compared character by character
  (the order of \<^typ>\<open>char\<close> is the order of the character codes, as in Python).
  Case conversion is modelled on the ASCII letters only.
\<close>

definition upper_letters :: string where
  "upper_letters = ''ABCDEFGHIJKLMNOPQRSTUVWXYZ''"

definition lower_letters :: string where
  "lower_letters = ''abcdefghijklmnopqrstuvwxyz''"

definition digit_chars :: string where
  "digit_chars = ''0123456789''"

definition lower_char :: "char \<Rightarrow> char" where
  "lower_char c = (case map_of (zip upper_letters lower_letters) c of Some d \<Rightarrow> d | None \<Rightarrow> c)"

definition upper_char :: "char \<Rightarrow> char" where
  "upper_char c = (case map_of (zip lower_letters upper_letters) c of Some d \<Rightarrow> d | None \<Rightarrow> c)"

definition lower :: "string \<Rightarrow> string" where
  "lower s = map lower_char s"

definition upper :: "string \<Rightarrow> string" where
  "upper s = map upper_char s"

text \<open>\<open>sub in s\<close> on strings: \<open>sub\<close> occurs in \<open>s\<close> as a contiguous run.\<close>

fun contains :: "string \<Rightarrow> string \<Rightarrow> bool" where
  "contains sub [] = (sub = [])"
| "contains sub (c # cs) = (prefix sub (c # cs) \<or> contains sub cs)"

text \<open>\<open>s.startswith(p)\<close>.\<close>

definition startswith :: "string \<Rightarrow> string \<Rightarrow> bool" where
  "startswith s p = prefix p s"

section \<open>Values of the store\<close>

text \<open>The exceptions that occur.\<close>

datatype error = FileNotFoundError | ValueError | KeyError | TypeError | AttributeError

text \<open>
  The values the store yields and \<open>json.loads\<close> returns: \<open>None\<close>, booleans,
  integers, strings, lists, and dictionaries with string keys (in insertion order).
  Floating-point numbers and byte strings are left out.
\<close>

datatype pyval =
    PNone
  | PBool bool
  | PInt int
  | PStr string
  | PList "pyval list"
  | PDict "(string \<times> pyval) list"

text \<open>Truth value testing (\<open>if v\<close>, \<open>v or d\<close>).\<close>

fun py_truthy :: "pyval \<Rightarrow> bool" where
  "py_truthy PNone = False"
| "py_truthy (PBool b) = b"
| "py_truthy (PInt i) = (i \<noteq> 0)"
| "py_truthy (PStr s) = (s \<noteq> [])"
| "py_truthy (PList vs) = (vs \<noteq> [])"
| "py_truthy (PDict kvs) = (kvs \<noteq> [])"

text \<open>\<open>d.get(k)\<close> and \<open>k in d\<close> on a dictionary with string keys.\<close>

definition dget :: "(string \<times> pyval) list \<Rightarrow> string \<Rightarrow> pyval" where
  "dget d k = (case map_of d k of None \<Rightarrow> PNone | Some v \<Rightarrow> v)"

definition has_key :: "(string \<times> pyval) list \<Rightarrow> string \<Rightarrow> bool" where
  "has_key d k = (k \<in> set (map fst d))"

text \<open>\<open>required.issubset(record.keys())\<close>.\<close>

definition has_keys :: "string list \<Rightarrow> (string \<times> pyval) list \<Rightarrow> bool" where
  "has_keys required d = list_all (has_key d) required"

section \<open>Detection of the object stores (store\_detector.py)\<close>

record DetectedStores =
  ds_issues :: "string option"
  ds_teams :: "string option"
  ds_users :: "string list option"
  ds_workflow_states :: "string list option"
  ds_comments :: "string option"
  ds_projects :: "string option"

definition is_issue_record :: "(string \<times> pyval) list \<Rightarrow> bool" where
  "is_issue_record r = has_keys [''number'', ''teamId'', ''stateId'', ''title''] r"

definition is_user_record :: "(string \<times> pyval) list \<Rightarrow> bool" where
  "is_user_record r =
     (has_keys [''name'', ''displayName'', ''email''] r
      \<and> (has_key r ''avatarUrl'' \<or> has_key r ''avatar''))"

text \<open>
  \<open>key.isupper()\<close>: some cased character and no lower-case one;
  \<open>key.isalpha()\<close>: not empty and letters only (ASCII).
\<close>

definition isupper :: "string \<Rightarrow> bool" where
  "isupper s = ((\<exists>ch\<in>set s. ch \<in> set upper_letters) \<and> (\<forall>ch\<in>set s. ch \<notin> set lower_letters))"

definition isalpha :: "string \<Rightarrow> bool" where
  "isalpha s = (s \<noteq> [] \<and> (\<forall>ch\<in>set s. ch \<in> set upper_letters \<or> ch \<in> set lower_letters))"

definition is_team_record :: "(string \<times> pyval) list \<Rightarrow> bool" where
  "is_team_record r =
     (if \<not> has_keys [''key'', ''name''] r then False
      else case dget r ''key'' of
             PStr key \<Rightarrow> isupper key \<and> isalpha key \<and> length key \<le> 10
           | _ \<Rightarrow> False)"

text \<open>
  \<open>state_type in valid_types\<close> hashes \<open>state_type\<close>, which raises \<open>TypeError\<close>
  for a list or a dictionary.
\<close>

definition is_workflow_state_record :: "(string \<times> pyval) list \<Rightarrow> error + bool" where
  "is_workflow_state_record r =
     (if \<not> has_keys [''name'', ''type'', ''color''] r then Inr False
      else case dget r ''type'' of
             PList _ \<Rightarrow> Inl TypeError
           | PDict _ \<Rightarrow> Inl TypeError
           | state_type \<Rightarrow>
               Inr (state_type \<in> set (map PStr
                      [''started'', ''unstarted'', ''completed'', ''canceled'', ''backlog''])))"

definition is_comment_record :: "(string \<times> pyval) list \<Rightarrow> bool" where
  "is_comment_record r = has_keys [''issueId'', ''userId'', ''bodyData'', ''createdAt''] r"

definition is_project_record :: "(string \<times> pyval) list \<Rightarrow> bool" where
  "is_project_record r =
     has_keys [''name'', ''description'', ''teamIds'', ''startDate'', ''targetDate'', ''statusId''] r"

text \<open>\<open>result.users or []\<close>.\<close>

definition or_empty :: "string list option \<Rightarrow> string list" where
  "or_empty l = (case l of None \<Rightarrow> [] | Some xs \<Rightarrow> xs)"

text \<open>
  The \<open>if\<close>/\<open>elif\<close> chain of \<open>detect_stores\<close> on the first record \<open>val\<close> of the
  store \<open>store_name\<close>. An exception leaves the chain before anything is assigned.
\<close>

definition classify ::
  "string \<Rightarrow> (string \<times> pyval) list \<Rightarrow> DetectedStores \<Rightarrow> error + DetectedStores" where
  "classify store_name val result =
     (if is_issue_record val \<and> ds_issues result = None
        then Inr (result\<lparr>ds_issues := Some store_name\<rparr>)
      else if is_team_record val \<and> ds_teams result = None
        then Inr (result\<lparr>ds_teams := Some store_name\<rparr>)
      else if is_user_record val \<and> store_name \<notin> set (or_empty (ds_users result))
        then Inr (result\<lparr>ds_users := Some (or_empty (ds_users result) @ [store_name])\<rparr>)
      else case is_workflow_state_record val of
             Inl e \<Rightarrow> Inl e
           | Inr is_state \<Rightarrow>
               if is_state \<and> store_name \<notin> set (or_empty (ds_workflow_states result))
                 then Inr (result\<lparr>ds_workflow_states :=
                             Some (or_empty (ds_workflow_states result) @ [store_name])\<rparr>)
               else if is_comment_record val \<and> ds_comments result = None
                 then Inr (result\<lparr>ds_comments := Some store_name\<rparr>)
               else if is_project_record val \<and> ds_projects result = None
                 then Inr (result\<lparr>ds_projects := Some store_name\<rparr>)
               else Inr result)"

text \<open>
  What reading the first record of a store gives: an exception, no record at all, or
  the value of the first record.
\<close>

datatype sample = ReadFails | NoRecord | FirstValue pyval

text \<open>The test that skips a store by its name.\<close>

definition skipped_name :: "string option \<Rightarrow> bool" where
  "skipped_name store_name =
     (case store_name of
        None \<Rightarrow> True
      | Some n \<Rightarrow> startswith n ''_'' \<or> contains ''_partial'' n)"

text \<open>One round of the loop over \<open>db.object_store_names\<close>.\<close>

definition detect_step :: "DetectedStores \<Rightarrow> string option \<times> sample \<Rightarrow> DetectedStores" where
  "detect_step result store =
     (if skipped_name (fst store) then result
      else case snd store of
             FirstValue (PDict val) \<Rightarrow>
               (case classify (the (fst store)) val result of
                  Inl e \<Rightarrow> result
                | Inr result' \<Rightarrow> result')
           | _ \<Rightarrow> result)"

definition detect_from :: "DetectedStores \<Rightarrow> (string option \<times> sample) list \<Rightarrow> DetectedStores" where
  "detect_from result stores = foldl detect_step result stores"

definition detect_stores :: "(string option \<times> sample) list \<Rightarrow> DetectedStores" where
  "detect_stores stores =
     detect_from \<lparr>ds_issues = None, ds_teams = None, ds_users = Some [],
       ds_workflow_states = Some [], ds_comments = None, ds_projects = None\<rparr> stores"

text \<open>
  The conditions of the branches of the chain, and whether the \<open>type\<close> value lets
  the workflow-state test return.
\<close>

definition issue_arm :: "(string \<times> pyval) list \<Rightarrow> DetectedStores \<Rightarrow> bool" where
  "issue_arm val r = (is_issue_record val \<and> ds_issues r = None)"

definition team_arm :: "(string \<times> pyval) list \<Rightarrow> DetectedStores \<Rightarrow> bool" where
  "team_arm val r = (is_team_record val \<and> ds_teams r = None)"

definition user_arm :: "string \<Rightarrow> (string \<times> pyval) list \<Rightarrow> DetectedStores \<Rightarrow> bool" where
  "user_arm n val r = (is_user_record val \<and> n \<notin> set (or_empty (ds_users r)))"

definition state_arm :: "string \<Rightarrow> (string \<times> pyval) list \<Rightarrow> DetectedStores \<Rightarrow> bool" where
  "state_arm n val r =
     (is_workflow_state_record val = Inr True \<and> n \<notin> set (or_empty (ds_workflow_states r)))"

definition comment_arm :: "(string \<times> pyval) list \<Rightarrow> DetectedStores \<Rightarrow> bool" where
  "comment_arm val r = (is_comment_record val \<and> ds_comments r = None)"

definition project_arm :: "(string \<times> pyval) list \<Rightarrow> DetectedStores \<Rightarrow> bool" where
  "project_arm val r = (is_project_record val \<and> ds_projects r = None)"

definition type_hashable :: "(string \<times> pyval) list \<Rightarrow> bool" where
  "type_hashable val = (case is_workflow_state_record val of Inl e \<Rightarrow> False | Inr b \<Rightarrow> True)"

text \<open>Two stores whose first records both have the fields of an issue.\<close>

definition issue_fields :: "(string \<times> pyval) list" where
  "issue_fields = [(''number'', PInt 7), (''teamId'', PStr ''t1''), (''stateId'', PStr ''s1''),
     (''title'', PStr ''Fix login'')]"

definition two_issue_like_stores :: "(string option \<times> sample) list" where
  "two_issue_like_stores =
     [(Some ''aaa'', FirstValue (PDict (issue_fields @ [(''extra'', PInt 1)]))),
      (Some ''bbb'', FirstValue (PDict (issue_fields @ [(''key'', PStr ''ENG''), (''name'', PStr ''Eng'')])))]"

section \<open>The cached snapshot (reader.py)\<close>

text \<open>
  The entity dictionaries of \<open>CachedData\<close> are kept as lists of their values in
  insertion order, which is the order in which \<open>dict.values()\<close> iterates.
  Times are the seconds returned by \<open>time.time()\<close>, taken as real numbers.
\<close>

record team =
  team_id :: string
  team_key :: "string option"
  team_name :: "string option"

record user =
  user_id :: string
  user_name :: "string option"
  user_displayName :: "string option"
  user_email :: "string option"

record wstate =
  wstate_id :: string
  wstate_name :: "string option"
  wstate_type :: "string option"
  wstate_color :: "string option"

text \<open>
  A value of the \<open>updatedAt\<close> field as \<open>_parse_datetime\<close> distinguishes it:
  absent, a number, or text.
\<close>

datatype dt_value = DtNone | DtNum real | DtStr string

record issue =
  issue_id :: string
  issue_identifier :: string
  title :: "string option"
  priority :: "int option"
  teamId :: "string option"
  stateId :: "string option"
  assigneeId :: "string option"
  updatedAt :: dt_value

record CachedData =
  teams :: "team list"
  users :: "user list"
  states :: "wstate list"
  issues :: "issue list"
  loaded_at :: real

definition CACHE_TTL_SECONDS :: real where
  "CACHE_TTL_SECONDS = 300"

text \<open>\<open>CachedData.is_expired\<close>, with the clock reading \<open>now\<close> made explicit.\<close>

definition is_expired :: "real \<Rightarrow> CachedData \<Rightarrow> bool" where
  "is_expired now c = (now - loaded_at c > CACHE_TTL_SECONDS)"

text \<open>
  \<open>LinearLocalReader._ensure_cache\<close>: the reader's state is its cache; the reload
  pass is a parameter that reads the clock and the store and either raises or returns
  the fresh cache, which replaces the old one.
\<close>

definition ensure_cache ::
  "(real \<Rightarrow> error + CachedData) \<Rightarrow> real \<Rightarrow> CachedData \<Rightarrow> error + CachedData" where
  "ensure_cache reload_cache now cache =
     (if is_expired now cache \<or> teams cache = [] then reload_cache now else Inr cache)"

section \<open>The canonical order of issues (server.py)\<close>

text \<open>\<open>x.get("priority") or 4\<close>: \<open>None\<close> and \<open>0\<close> are both falsy.\<close>

definition priority_or_4 :: "int option \<Rightarrow> int" where
  "priority_or_4 p = (case p of None \<Rightarrow> 4 | Some n \<Rightarrow> if n = 0 then 4 else n)"

definition sort_key_of :: "issue \<Rightarrow> int \<times> string" where
  "sort_key_of x = (priority_or_4 (priority x), issue_id x)"

text \<open>
  \<open>sorted(reader.issues.values(), key=...)\<close>. Python's \<open>sorted\<close> is stable, as is
  insertion sort by key.
\<close>

definition all_issues :: "issue list \<Rightarrow> issue list" where
  "all_issues xs = sort_key sort_key_of xs"

definition mk_issue :: "string \<Rightarrow> int option \<Rightarrow> issue" where
  "mk_issue i p = \<lparr>issue_id = i, issue_identifier = ''???-1'', title = None, priority = p,
     teamId = None, stateId = None, assigneeId = None, updatedAt = DtNone\<rparr>"

section \<open>Lookups of the reader (reader.py)\<close>

text \<open>
  The queries below read one snapshot \<open>c\<close>, the cache that \<open>_ensure_cache\<close>
  returned; the snapshot is the same for every access within a call.
  The fields read here are typed as the data model has them: ids and names are
  strings, a field that the loader filled with \<open>None\<close> is \<open>None\<close>.
\<close>

text \<open>\<open>_to_str\<close> on a string or \<open>None\<close>.\<close>

definition to_str :: "string option \<Rightarrow> string" where
  "to_str v = (case v of None \<Rightarrow> [] | Some s \<Rightarrow> s)"

text \<open>The score \<open>find_user\<close> gives a user, \<open>None\<close> when the user is no candidate.\<close>

definition user_score :: "string \<Rightarrow> user \<Rightarrow> int option" where
  "user_score search u =
     (let search_lower = lower search;
          name_lower = lower (to_str (user_name u));
          display_lower = lower (to_str (user_displayName u))
      in if contains search_lower name_lower \<or> contains search_lower display_lower then
           Some (if startswith name_lower search_lower then 100
                 else if contains (CHR '' '' # search_lower) (CHR '' '' # name_lower) then 50
                 else if startswith display_lower search_lower then 40
                 else 10)
         else None)"

fun candidates :: "string \<Rightarrow> user list \<Rightarrow> (int \<times> user) list" where
  "candidates search [] = []"
| "candidates search (u # us) =
     (case user_score search u of
        None \<Rightarrow> candidates search us
      | Some score \<Rightarrow> (score, u) # candidates search us)"

text \<open>\<open>candidates.sort(key=lambda x: -x[0])\<close> is a stable sort; then the first element.\<close>

definition find_user :: "string \<Rightarrow> user list \<Rightarrow> user option" where
  "find_user search us =
     (case sort_key (\<lambda>x. - fst x) (candidates search us) of
        [] \<Rightarrow> None
      | c # _ \<Rightarrow> Some (snd c))"

fun find_team :: "string \<Rightarrow> team list \<Rightarrow> team option" where
  "find_team search [] = None"
| "find_team search (t # ts) =
     (if team_key t = Some (upper search)
         \<or> contains (lower search) (lower (to_str (team_name t)))
      then Some t else find_team search ts)"

text \<open>\<open>self.states.get(state_id, {})\<close>: the state with that id, if any.\<close>

definition lookup_state :: "CachedData \<Rightarrow> string option \<Rightarrow> wstate option" where
  "lookup_state c sid =
     (case sid of None \<Rightarrow> None | Some s \<Rightarrow> find (\<lambda>st. wstate_id st = s) (states c))"

definition get_state_name :: "CachedData \<Rightarrow> string option \<Rightarrow> string option" where
  "get_state_name c sid =
     (case lookup_state c sid of None \<Rightarrow> Some ''Unknown'' | Some st \<Rightarrow> wstate_name st)"

definition get_state_type :: "CachedData \<Rightarrow> string option \<Rightarrow> string option" where
  "get_state_type c sid =
     (case lookup_state c sid of None \<Rightarrow> Some ''unknown'' | Some st \<Rightarrow> wstate_type st)"

definition get_issues_for_user :: "CachedData \<Rightarrow> string \<Rightarrow> issue list" where
  "get_issues_for_user c uid = filter (\<lambda>i. assigneeId i = Some uid) (issues c)"

section \<open>The tools of the server (server.py)\<close>

text \<open>
  \<open>dt_value.replace("Z", "+00:00")\<close>, and \<open>_parse_datetime\<close>. The library call
  \<open>datetime.fromisoformat(s).timestamp()\<close> is the parameter \<open>fromisoformat\<close>,
  which is \<open>None\<close> where the library raises \<open>ValueError\<close>.
\<close>

definition replace_Z :: "string \<Rightarrow> string" where
  "replace_Z s = concat (map (\<lambda>ch. if ch = CHR ''Z'' then ''+00:00'' else [ch]) s)"

definition parse_datetime :: "(string \<Rightarrow> real option) \<Rightarrow> dt_value \<Rightarrow> real option" where
  "parse_datetime fromisoformat v =
     (case v of
        DtNone \<Rightarrow> None
      | DtNum x \<Rightarrow> if x > 1000000000000 then Some (x / 1000) else Some x
      | DtStr s \<Rightarrow> fromisoformat (replace_Z s))"

text \<open>The slice \<open>xs[:n]\<close> for a Python integer \<open>n\<close>, which may be negative.\<close>

definition py_take :: "int \<Rightarrow> 'a list \<Rightarrow> 'a list" where
  "py_take n xs = (if 0 \<le> n then take (nat n) xs else take (nat (int (length xs) + n)) xs)"

text \<open>
  The cursor loop, which \<open>list_issues\<close>, \<open>search_issues\<close> and
  \<open>get_my_issues\<close> each contain in the same words: everything is skipped until the
  issue whose id is the cursor has been passed.
\<close>

fun skip_to_cursor :: "string \<Rightarrow> issue list \<Rightarrow> issue list" where
  "skip_to_cursor cur [] = []"
| "skip_to_cursor cur (x # xs) = (if issue_id x = cur then xs else skip_to_cursor cur xs)"

text \<open>
  The lines that follow the filters in each of the three tools: apply the cursor when
  it is truthy, take \<open>limit + 1\<close>, note whether there is more, cut to \<open>limit\<close>,
  and give the id of the last issue of the page as the next cursor. The result is the
  pair of \<open>page\<close> and \<open>next_cursor\<close>.
\<close>

definition paginate :: "int \<Rightarrow> string option \<Rightarrow> issue list \<Rightarrow> issue list \<times> string option" where
  "paginate limit cursor filtered =
     (let filtered = (case cursor of
                        None \<Rightarrow> filtered
                      | Some cur \<Rightarrow> if cur \<noteq> [] then skip_to_cursor cur filtered else filtered);
          page = py_take (limit + 1) filtered;
          has_more = (int (length page) > limit);
          page = py_take limit page;
          next_cursor = (if has_more \<and> page \<noteq> [] then Some (issue_id (last page)) else None)
      in (page, next_cursor))"

record enriched =
  e_issue :: issue
  e_state :: "string option"
  e_stateType :: "string option"

definition enrich :: "CachedData \<Rightarrow> issue \<Rightarrow> enriched" where
  "enrich c i = \<lparr>e_issue = i, e_state = get_state_name c (stateId i),
                 e_stateType = get_state_type c (stateId i)\<rparr>"

record list_result =
  lr_error :: "string option"
  lr_issues :: "enriched list"
  lr_nextCursor :: "string option"
  lr_totalCount :: nat

text \<open>The body of the filter loop of \<open>list_issues\<close>: does the issue reach \<open>append\<close>?\<close>

definition issue_passes ::
  "(string \<Rightarrow> real option) \<Rightarrow> CachedData \<Rightarrow> string option \<Rightarrow> string option \<Rightarrow> string option
     \<Rightarrow> int option \<Rightarrow> real option \<Rightarrow> issue \<Rightarrow> bool" where
  "issue_passes fromisoformat c aid tid state_type prio updated_after_ts i =
     (if aid \<noteq> None \<and> aid \<noteq> Some [] \<and> assigneeId i \<noteq> aid then False
      else if tid \<noteq> None \<and> tid \<noteq> Some [] \<and> teamId i \<noteq> tid then False
      else if state_type \<noteq> None \<and> state_type \<noteq> Some []
              \<and> get_state_type c (stateId i) \<noteq> state_type then False
      else if prio \<noteq> None \<and> priority i \<noteq> prio then False
      else (case updated_after_ts of
              None \<Rightarrow> True
            | Some ts \<Rightarrow>
                (case parse_datetime fromisoformat (updatedAt i) of
                   None \<Rightarrow> False
                 | Some issue_updated \<Rightarrow> \<not> issue_updated < ts)))"

text \<open>
  The block "Parse updated_after filter" of \<open>list_issues\<close> and
  \<open>get_my_issues\<close>: the rejected text, or \<open>updated_after_ts\<close>.
\<close>

definition truthy :: "string option \<Rightarrow> bool" where
  "truthy v = (v \<noteq> None \<and> v \<noteq> Some [])"

definition updated_after_filter ::
  "(string \<Rightarrow> real option) \<Rightarrow> string option \<Rightarrow> string + real option" where
  "updated_after_filter fromisoformat updated_after =
     (case updated_after of
        None \<Rightarrow> Inr None
      | Some s \<Rightarrow>
          if s = [] then Inr None
          else (case parse_datetime fromisoformat (DtStr s) of
                  None \<Rightarrow> Inl s
                | Some ts \<Rightarrow> Inr (Some ts)))"

text \<open>
  The outcome of the three guards that precede the sort in \<open>list_issues\<close>: an early
  return, or the resolved filters.
\<close>

datatype resolved =
    InvalidDate string
  | Unresolved
  | Resolved "string option" "string option" "real option"

definition resolve_filters ::
  "(string \<Rightarrow> real option) \<Rightarrow> CachedData \<Rightarrow> string option \<Rightarrow> string option \<Rightarrow> string option
     \<Rightarrow> resolved" where
  "resolve_filters fromisoformat c assignee team updated_after =
     (case updated_after_filter fromisoformat updated_after of
        Inl s \<Rightarrow> InvalidDate s
      | Inr updated_after_ts \<Rightarrow>
          if truthy assignee \<and> find_user (the assignee) (users c) = None then Unresolved
          else
            let aid =
                  (if truthy assignee
                   then map_option user_id (find_user (the assignee) (users c)) else None)
            in if truthy team \<and> find_team (the team) (teams c) = None then Unresolved
               else
                 let tid =
                       (if truthy team
                        then map_option team_id (find_team (the team) (teams c)) else None)
                 in Resolved aid tid updated_after_ts)"

text \<open>
  The list \<open>filtered\<close> of \<open>list_issues\<close> before the cursor is applied: the
  issues in canonical order that pass every filter. An early return lists nothing.
\<close>

definition filtered_candidates ::
  "(string \<Rightarrow> real option) \<Rightarrow> CachedData \<Rightarrow> string option \<Rightarrow> string option \<Rightarrow> string option
     \<Rightarrow> int option \<Rightarrow> string option \<Rightarrow> issue list" where
  "filtered_candidates fromisoformat c assignee team state_type prio updated_after =
     (case resolve_filters fromisoformat c assignee team updated_after of
        Resolved aid tid updated_after_ts \<Rightarrow>
          filter (issue_passes fromisoformat c aid tid state_type prio updated_after_ts)
            (all_issues (issues c))
      | _ \<Rightarrow> [])"

definition list_issues ::
  "(string \<Rightarrow> real option) \<Rightarrow> CachedData \<Rightarrow> string option \<Rightarrow> string option \<Rightarrow> string option
     \<Rightarrow> int option \<Rightarrow> string option \<Rightarrow> int \<Rightarrow> string option \<Rightarrow> list_result" where
  "list_issues fromisoformat c assignee team state_type prio updated_after limit cursor =
     (let limit = min limit 100 in
      case resolve_filters fromisoformat c assignee team updated_after of
        InvalidDate s \<Rightarrow>
          \<lparr>lr_error = Some (''Invalid updated_after format: '' @ s), lr_issues = [],
            lr_nextCursor = None, lr_totalCount = 0\<rparr>
      | Unresolved \<Rightarrow>
          \<lparr>lr_error = None, lr_issues = [], lr_nextCursor = None, lr_totalCount = 0\<rparr>
      | Resolved aid tid updated_after_ts \<Rightarrow>
          let filtered = filter
                (issue_passes fromisoformat c aid tid state_type prio updated_after_ts)
                (all_issues (issues c));
              total_count = length filtered;
              paged = paginate limit cursor filtered
          in \<lparr>lr_error = None, lr_issues = map (enrich c) (fst paged),
               lr_nextCursor = snd paged, lr_totalCount = total_count\<rparr>)"

text \<open>The list \<open>filtered\<close> of \<open>search_issues\<close> before the cursor is applied.\<close>

definition search_matching :: "CachedData \<Rightarrow> string \<Rightarrow> issue list" where
  "search_matching c query =
     filter (\<lambda>i. contains (lower query) (lower (to_str (title i)))) (all_issues (issues c))"

definition search_issues ::
  "CachedData \<Rightarrow> string \<Rightarrow> int \<Rightarrow> string option \<Rightarrow> list_result" where
  "search_issues c query limit cursor =
     (let limit = min limit 100;
          filtered = search_matching c query;
          match_count = length filtered;
          paged = paginate limit cursor filtered
      in \<lparr>lr_error = None, lr_issues = map (enrich c) (fst paged),
           lr_nextCursor = snd paged, lr_totalCount = match_count\<rparr>)"

text \<open>\<open>counts_by_state[t] = counts_by_state.get(t, 0) + 1\<close> on an insertion-ordered dict.\<close>

fun bump :: "string option \<Rightarrow> (string option \<times> nat) list \<Rightarrow> (string option \<times> nat) list" where
  "bump t [] = [(t, 1)]"
| "bump t ((k, n) # kvs) = (if k = t then (k, n + 1) # kvs else (k, n) # bump t kvs)"

record compact =
  c_id :: string
  c_identifier :: string
  c_title :: "string option"
  c_priority :: "int option"
  c_state :: "string option"
  c_stateType :: "string option"

record my_page =
  mp_user_name :: "string option"
  mp_user_email :: "string option"
  mp_totalIssues :: nat
  mp_countsByStateType :: "(string option \<times> nat) list"
  mp_matchingCount :: nat
  mp_issues :: "compact list"
  mp_nextCursor :: "string option"

text \<open>The dictionary \<open>get_my_issues\<close> returns: only an \<open>error\<close> key, or the page.\<close>

datatype my_issues_result = MyError string | MyPage my_page

definition compact_of :: "CachedData \<Rightarrow> issue \<Rightarrow> compact" where
  "compact_of c i = \<lparr>c_id = issue_id i, c_identifier = issue_identifier i, c_title = title i,
     c_priority = priority i, c_state = get_state_name c (stateId i),
     c_stateType = get_state_type c (stateId i)\<rparr>"

text \<open>The issues \<open>get_my_issues\<close> pages over, once the user is found.\<close>

definition my_matching ::
  "(string \<Rightarrow> real option) \<Rightarrow> CachedData \<Rightarrow> user \<Rightarrow> string option \<Rightarrow> real option \<Rightarrow> issue list" where
  "my_matching fromisoformat c u state_type updated_after_ts =
     (let all = sort_key sort_key_of (get_issues_for_user c (user_id u));
          all = (if truthy state_type
                 then filter (\<lambda>i. get_state_type c (stateId i) = state_type) all else all)
      in case updated_after_ts of
           None \<Rightarrow> all
         | Some ts \<Rightarrow>
             filter (\<lambda>i. (case parse_datetime fromisoformat (updatedAt i) of
                            None \<Rightarrow> 0 | Some x \<Rightarrow> if x = 0 then 0 else x) \<ge> ts) all)"

definition get_my_issues ::
  "(string \<Rightarrow> real option) \<Rightarrow> CachedData \<Rightarrow> string \<Rightarrow> string option \<Rightarrow> string option
     \<Rightarrow> int \<Rightarrow> string option \<Rightarrow> my_issues_result" where
  "get_my_issues fromisoformat c name state_type updated_after limit cursor =
     (let limit = min limit 100 in
      case updated_after_filter fromisoformat updated_after of
        Inl s \<Rightarrow> MyError (''Invalid updated_after format: '' @ s)
      | Inr updated_after_ts \<Rightarrow>
          (case find_user name (users c) of
             None \<Rightarrow> MyError (''User '' @ [CHR 0x27] @ name @ [CHR 0x27] @ '' not found'')
           | Some u \<Rightarrow>
               let counts_by_state =
                     foldl (\<lambda>counts i. bump (get_state_type c (stateId i)) counts) []
                       (sort_key sort_key_of (get_issues_for_user c (user_id u)));
                   matching = my_matching fromisoformat c u state_type updated_after_ts;
                   paged = paginate limit cursor matching
               in MyPage \<lparr>mp_user_name = user_name u, mp_user_email = user_email u,
                    mp_totalIssues = sum_list (map snd counts_by_state),
                    mp_countsByStateType = counts_by_state,
                    mp_matchingCount = length matching,
                    mp_issues = map (compact_of c) (fst paged),
                    mp_nextCursor = snd paged\<rparr>))"

text \<open>
  A caller that follows the cursors: it starts without a cursor, keeps the issues of
  each response, and calls again with the response's \<open>nextCursor\<close> until that is
  \<open>None\<close>. The first argument bounds the number of calls; \<open>None\<close> is returned when
  the bound is reached before the last page.
\<close>

fun collect_pages ::
  "nat \<Rightarrow> (string option \<Rightarrow> list_result) \<Rightarrow> string option \<Rightarrow> enriched list option" where
  "collect_pages 0 call cursor = None"
| "collect_pages (Suc n) call cursor =
     (let r = call cursor in
      case lr_nextCursor r of
        None \<Rightarrow> Some (lr_issues r)
      | Some cur \<Rightarrow> map_option (\<lambda>rest. lr_issues r @ rest) (collect_pages n call (Some cur)))"

text \<open>Two users for the examples.\<close>

definition zachary :: user where
  "zachary = \<lparr>user_id = ''u1'', user_name = Some ''Zachary McDaniel'',
     user_displayName = Some ''zach'', user_email = None\<rparr>"

definition daniel :: user where
  "daniel = \<lparr>user_id = ''u2'', user_name = Some ''Daniel Kessl'',
     user_displayName = Some ''dan'', user_email = None\<rparr>"

text \<open>The page cut from the list that remains after the cursor.\<close>

definition page_of :: "nat \<Rightarrow> issue list \<Rightarrow> issue list \<times> string option" where
  "page_of n rest = (take n rest, if n < length rest then Some (issue_id (rest ! (n - 1))) else None)"

text \<open>Two snapshots for the examples.\<close>

definition snapshot_abc :: CachedData where
  "snapshot_abc = \<lparr>teams = [], users = [zachary, daniel], states = [],
     issues = [mk_issue ''2'' (Some 1), (mk_issue ''1'' (Some 1))\<lparr>assigneeId := Some ''u2''\<rparr>,
               mk_issue ''3'' None],
     loaded_at = 0\<rparr>"

definition snapshot_empty_id :: CachedData where
  "snapshot_empty_id = \<lparr>teams = [], users = [], states = [],
     issues = [mk_issue [] None, mk_issue ''a'' None], loaded_at = 0\<rparr>"

section \<open>Text of a value\<close>

text \<open>
  \<open>str(v)\<close>, as an f-string renders a value. The text of a list or a dictionary is
  Python's \<open>repr\<close>, which is not modelled: it is the parameter \<open>container_str\<close>.
\<close>

fun nat_digits :: "nat \<Rightarrow> string" where
  "nat_digits n =
     (if n < 10 then [digit_chars ! n] else nat_digits (n div 10) @ [digit_chars ! (n mod 10)])"

declare nat_digits.simps [simp del]

definition int_str :: "int \<Rightarrow> string" where
  "int_str i = (if i < 0 then CHR ''-'' # nat_digits (nat (- i)) else nat_digits (nat i))"

definition py_str :: "(pyval \<Rightarrow> string) \<Rightarrow> pyval \<Rightarrow> string" where
  "py_str container_str v =
     (case v of
        PNone \<Rightarrow> ''None''
      | PBool b \<Rightarrow> if b then ''True'' else ''False''
      | PInt i \<Rightarrow> int_str i
      | PStr s \<Rightarrow> s
      | _ \<Rightarrow> container_str v)"

section \<open>Plain text of a comment body (reader.py)\<close>

text \<open>\<open>node.get(k, "")\<close>.\<close>

definition get_or_empty :: "(string \<times> pyval) list \<Rightarrow> string \<Rightarrow> pyval" where
  "get_or_empty d k = (case map_of d k of None \<Rightarrow> PStr [] | Some v \<Rightarrow> v)"

text \<open>\<open>"".join(parts)\<close>: every part must be a string.\<close>

fun str_parts :: "pyval list \<Rightarrow> string list option" where
  "str_parts [] = Some []"
| "str_parts (PStr s # vs) = map_option (\<lambda>ss. s # ss) (str_parts vs)"
| "str_parts (_ # vs) = None"

definition join :: "pyval list \<Rightarrow> error + pyval" where
  "join parts = (case str_parts parts of None \<Rightarrow> Inl TypeError | Some ss \<Rightarrow> Inr (PStr (concat ss)))"

text \<open>
  The text of a mention: the \<open>label\<close> of the dictionary \<open>attrs\<close> (either may be
  missing), rendered after an at sign when it is truthy, the empty string otherwise.
  A value of \<open>attrs\<close> that is no dictionary has no \<open>get\<close>.
\<close>

definition mention_text :: "(pyval \<Rightarrow> string) \<Rightarrow> (string \<times> pyval) list \<Rightarrow> error + pyval" where
  "mention_text container_str node =
     (case map_of node ''attrs'' of
        None \<Rightarrow> Inr (PStr [])
      | Some (PDict attrs) \<Rightarrow>
          (let label = get_or_empty attrs ''label''
           in if py_truthy label then Inr (PStr (CHR ''@'' # py_str container_str label))
              else Inr (PStr []))
      | Some _ \<Rightarrow> Inl AttributeError)"

text \<open>
  The inner function \<open>extract\<close>, here \<open>extract_node\<close>. \<open>extract_each\<close> runs the generator
  \<open>extract(c) for c in ...\<close>, which \<open>join\<close> consumes before it looks at the parts;
  \<open>extract_content\<close> finds \<open>node.get("content", [])\<close> and iterates over it: over the
  elements of a list, over the characters of a string or the keys of a dictionary
  (each of which extracts to the empty string); any other value is not iterable.
\<close>

fun extract_node :: "(pyval \<Rightarrow> string) \<Rightarrow> pyval \<Rightarrow> error + pyval"
  and extract_each :: "(pyval \<Rightarrow> string) \<Rightarrow> pyval list \<Rightarrow> error + pyval list"
  and extract_content :: "(pyval \<Rightarrow> string) \<Rightarrow> (string \<times> pyval) list \<Rightarrow> error + pyval"
where
  "extract_node cs (PDict node) =
     (let node_type = get_or_empty node ''type'' in
      if node_type = PStr ''text'' then Inr (get_or_empty node ''text'')
      else if node_type = PStr ''suggestion_userMentions'' then mention_text cs node
      else if node_type = PStr ''hardBreak'' then Inr (PStr [CHR 0x0A])
      else extract_content cs node)"
| "extract_node cs (PList elems) =
     (case extract_each cs elems of Inl e \<Rightarrow> Inl e | Inr parts \<Rightarrow> join parts)"
| "extract_node cs PNone = Inr (PStr [])"
| "extract_node cs (PBool b) = Inr (PStr [])"
| "extract_node cs (PInt i) = Inr (PStr [])"
| "extract_node cs (PStr s) = Inr (PStr [])"
| "extract_each cs [] = Inr []"
| "extract_each cs (c # rest) =
     (case extract_node cs c of
        Inl e \<Rightarrow> Inl e
      | Inr part \<Rightarrow> (case extract_each cs rest of Inl e \<Rightarrow> Inl e | Inr parts \<Rightarrow> Inr (part # parts)))"
| "extract_content cs [] = Inr (PStr [])"
| "extract_content cs ((k, v) # node) =
     (if k = ''content'' then
        (case v of
           PList elems \<Rightarrow>
             (case extract_each cs elems of Inl e \<Rightarrow> Inl e | Inr parts \<Rightarrow> join parts)
         | PStr s \<Rightarrow> Inr (PStr [])
         | PDict d \<Rightarrow> Inr (PStr [])
         | _ \<Rightarrow> Inl TypeError)
      else extract_content cs node)"

text \<open>
  \<open>_extract_comment_text\<close>. \<open>json.loads\<close> is the parameter \<open>json_loads\<close>, which is
  \<open>None\<close> where the library raises \<open>JSONDecodeError\<close>.
\<close>

definition extract_comment_text ::
  "(string \<Rightarrow> pyval option) \<Rightarrow> (pyval \<Rightarrow> string) \<Rightarrow> pyval \<Rightarrow> error + pyval" where
  "extract_comment_text json_loads cs body_data =
     (case body_data of
        PNone \<Rightarrow> Inr (PStr [])
      | PStr s \<Rightarrow> (case json_loads s of None \<Rightarrow> Inr (PStr s) | Some tree \<Rightarrow> extract_node cs tree)
      | _ \<Rightarrow> extract_node cs body_data)"


section \<open>Loading the snapshot (reader.py)\<close>

text \<open>
  \<open>CachedData\<close> as \<open>_reload_cache\<close> fills it. A dictionary keyed by ids is a list
  of key and entry in insertion order; the entries are records of the values copied
  from the store, of whatever type they are.
\<close>

record team_entry =
  te_id :: pyval
  te_key :: pyval
  te_name :: pyval

record user_entry =
  ue_id :: pyval
  ue_name :: pyval
  ue_displayName :: pyval
  ue_email :: pyval

record state_entry =
  se_id :: pyval
  se_name :: pyval
  se_type :: pyval
  se_color :: pyval

record issue_entry =
  ie_id :: pyval
  ie_identifier :: string
  ie_title :: pyval
  ie_number :: pyval
  ie_priority :: pyval
  ie_teamId :: pyval
  ie_stateId :: pyval
  ie_assigneeId :: pyval
  ie_projectId :: pyval
  ie_labelIds :: pyval
  ie_createdAt :: pyval
  ie_updatedAt :: pyval

record comment_entry =
  ce_id :: pyval
  ce_issueId :: pyval
  ce_userId :: pyval
  ce_body :: pyval
  ce_createdAt :: pyval
  ce_updatedAt :: pyval

record LoadedData =
  ld_teams :: "(pyval \<times> team_entry) list"
  ld_users :: "(pyval \<times> user_entry) list"
  ld_states :: "(pyval \<times> state_entry) list"
  ld_issues :: "(pyval \<times> issue_entry) list"
  ld_comments :: "(pyval \<times> comment_entry) list"
  ld_comments_by_issue :: "(pyval \<times> pyval list) list"
  ld_loaded_at :: real

text \<open>
  Keys of a dictionary: lists and dictionaries cannot be hashed; \<open>True\<close> and
  \<open>False\<close> are the same keys as 1 and 0.
\<close>

fun hashable :: "pyval \<Rightarrow> bool" where
  "hashable (PList vs) = False"
| "hashable (PDict kvs) = False"
| "hashable v = True"

fun key_of :: "pyval \<Rightarrow> pyval" where
  "key_of (PBool b) = PInt (if b then 1 else 0)"
| "key_of v = v"

text \<open>\<open>d[k] = v\<close>: an entry of the same key is replaced in its place, a new one goes last.\<close>

fun store_entry :: "pyval \<Rightarrow> 'a \<Rightarrow> (pyval \<times> 'a) list \<Rightarrow> (pyval \<times> 'a) list" where
  "store_entry k v [] = [(k, v)]"
| "store_entry k v ((k', v') # d) =
     (if k' = k then (k', v) # d else (k', v') # store_entry k v d)"

definition bind :: "error + 'a \<Rightarrow> ('a \<Rightarrow> error + 'b) \<Rightarrow> error + 'b" where
  "bind m f = (case m of Inl e \<Rightarrow> Inl e | Inr x \<Rightarrow> f x)"

text \<open>
  \<open>_load_from_store\<close>: the database is the function from a store name to the values
  of the records the store yields before its iteration ends or fails; falsy values
  are passed over.
\<close>

definition load_from_store :: "(string \<Rightarrow> pyval list) \<Rightarrow> string \<Rightarrow> pyval list" where
  "load_from_store db store_name = filter py_truthy (db store_name)"

text \<open>The body of the loop "Load teams", for one value.\<close>

definition add_team :: "pyval \<Rightarrow> (pyval \<times> team_entry) list \<Rightarrow> error + (pyval \<times> team_entry) list" where
  "add_team val d =
     (case val of
        PDict r \<Rightarrow>
          (case map_of r ''id'' of
             None \<Rightarrow> Inl KeyError
           | Some i \<Rightarrow>
               if hashable i
               then Inr (store_entry (key_of i)
                      \<lparr>te_id = i, te_key = dget r ''key'', te_name = dget r ''name''\<rparr> d)
               else Inl TypeError)
      | _ \<Rightarrow> Inl TypeError)"

text \<open>A \<open>for\<close> loop whose body may raise.\<close>

fun for_each :: "('a \<Rightarrow> 's \<Rightarrow> error + 's) \<Rightarrow> 'a list \<Rightarrow> 's \<Rightarrow> error + 's" where
  "for_each body [] s = Inr s"
| "for_each body (x # xs) s = bind (body x s) (for_each body xs)"

text \<open>The body of the loops "Load users" and "Load workflow states", for one value.\<close>

definition add_user :: "pyval \<Rightarrow> (pyval \<times> user_entry) list \<Rightarrow> error + (pyval \<times> user_entry) list" where
  "add_user val d =
     (case val of
        PDict r \<Rightarrow>
          if \<not> hashable (dget r ''id'') then Inl TypeError
          else if key_of (dget r ''id'') \<in> fst ` set d then Inr d
          else (case map_of r ''id'' of
                  None \<Rightarrow> Inl KeyError
                | Some i \<Rightarrow>
                    Inr (store_entry (key_of i)
                      \<lparr>ue_id = i, ue_name = dget r ''name'',
                        ue_displayName = dget r ''displayName'', ue_email = dget r ''email''\<rparr> d))
      | _ \<Rightarrow> Inl AttributeError)"

definition add_state :: "pyval \<Rightarrow> (pyval \<times> state_entry) list \<Rightarrow> error + (pyval \<times> state_entry) list" where
  "add_state val d =
     (case val of
        PDict r \<Rightarrow>
          if \<not> hashable (dget r ''id'') then Inl TypeError
          else if key_of (dget r ''id'') \<in> fst ` set d then Inr d
          else (case map_of r ''id'' of
                  None \<Rightarrow> Inl KeyError
                | Some i \<Rightarrow>
                    Inr (store_entry (key_of i)
                      \<lparr>se_id = i, se_name = dget r ''name'',
                        se_type = dget r ''type'', se_color = dget r ''color''\<rparr> d))
      | _ \<Rightarrow> Inl AttributeError)"

text \<open>
  The identifier of an issue: the text of the key of the team found under the issue's
  \<open>teamId\<close>, or \<open>???\<close> when there is none, a hyphen, and the text of the number.
\<close>

definition team_key_text :: "(pyval \<Rightarrow> string) \<Rightarrow> (pyval \<times> team_entry) list \<Rightarrow> pyval \<Rightarrow> string" where
  "team_key_text cs team_map team_ref =
     (case map_of team_map (key_of team_ref) of
        None \<Rightarrow> ''???''
      | Some team \<Rightarrow> py_str cs (te_key team))"

definition make_identifier ::
  "(pyval \<Rightarrow> string) \<Rightarrow> (pyval \<times> team_entry) list \<Rightarrow> pyval \<Rightarrow> pyval \<Rightarrow> string" where
  "make_identifier cs team_map team_ref number =
     team_key_text cs team_map team_ref @ ''-'' @ py_str cs number"

text \<open>The body of the loop "Load issues", for one value.\<close>

definition add_issue ::
  "(pyval \<Rightarrow> string) \<Rightarrow> (pyval \<times> team_entry) list \<Rightarrow> pyval \<Rightarrow> (pyval \<times> issue_entry) list
     \<Rightarrow> error + (pyval \<times> issue_entry) list" where
  "add_issue cs team_map val d =
     (case val of
        PDict r \<Rightarrow>
          if \<not> hashable (dget r ''teamId'') then Inl TypeError
          else
            (let identifier = make_identifier cs team_map (dget r ''teamId'') (dget r ''number'')
             in case map_of r ''id'' of
                  None \<Rightarrow> Inl KeyError
                | Some i \<Rightarrow>
                    if hashable i
                    then Inr (store_entry (key_of i)
                           \<lparr>ie_id = i, ie_identifier = identifier, ie_title = dget r ''title'',
                             ie_number = dget r ''number'', ie_priority = dget r ''priority'',
                             ie_teamId = dget r ''teamId'', ie_stateId = dget r ''stateId'',
                             ie_assigneeId = dget r ''assigneeId'',
                             ie_projectId = dget r ''projectId'',
                             ie_labelIds = (case map_of r ''labelIds'' of
                                              None \<Rightarrow> PList [] | Some l \<Rightarrow> l),
                             ie_createdAt = dget r ''createdAt'',
                             ie_updatedAt = dget r ''updatedAt''\<rparr> d)
                    else Inl TypeError)
      | _ \<Rightarrow> Inl AttributeError)"

text \<open>The body of the loop "Load comments", for one value.\<close>

definition add_comment ::
  "(string \<Rightarrow> pyval option) \<Rightarrow> (pyval \<Rightarrow> string) \<Rightarrow> pyval
     \<Rightarrow> (pyval \<times> comment_entry) list \<times> (pyval \<times> pyval list) list
     \<Rightarrow> error + (pyval \<times> comment_entry) list \<times> (pyval \<times> pyval list) list" where
  "add_comment json_loads cs val cb =
     (case val of
        PDict r \<Rightarrow>
          (let comment_id = dget r ''id''; issue_id = dget r ''issueId'' in
           if \<not> py_truthy comment_id \<or> \<not> py_truthy issue_id then Inr cb
           else
             bind (extract_comment_text json_loads cs (dget r ''bodyData''))
               (\<lambda>body.
                  if \<not> hashable comment_id \<or> \<not> hashable issue_id then Inl TypeError
                  else
                    Inr (store_entry (key_of comment_id)
                           \<lparr>ce_id = comment_id, ce_issueId = issue_id,
                             ce_userId = dget r ''userId'', ce_body = body,
                             ce_createdAt = dget r ''createdAt'',
                             ce_updatedAt = dget r ''updatedAt''\<rparr> (fst cb),
                         store_entry (key_of issue_id)
                           ((case map_of (snd cb) (key_of issue_id) of
                               None \<Rightarrow> [] | Some ids \<Rightarrow> ids) @ [comment_id]) (snd cb))))
      | _ \<Rightarrow> Inl AttributeError)"

text \<open>
  \<open>_reload_cache\<close>, from the point where the database is open and the stores are
  detected. The cache is returned, to replace the old one, only when no step raised.
\<close>

definition reload_cache_from ::
  "(string \<Rightarrow> pyval option) \<Rightarrow> (pyval \<Rightarrow> string) \<Rightarrow> DetectedStores \<Rightarrow> (string \<Rightarrow> pyval list)
     \<Rightarrow> real \<Rightarrow> error + LoadedData" where
  "reload_cache_from json_loads cs stores db now =
     bind (if truthy (ds_teams stores)
           then for_each add_team (load_from_store db (the (ds_teams stores))) []
           else Inr [])
       (\<lambda>team_map.
     bind (for_each add_user
             (concat (map (load_from_store db) (or_empty (ds_users stores)))) [])
       (\<lambda>user_map.
     bind (for_each add_state
             (concat (map (load_from_store db) (or_empty (ds_workflow_states stores)))) [])
       (\<lambda>state_map.
     bind (if truthy (ds_issues stores)
           then for_each (add_issue cs team_map) (load_from_store db (the (ds_issues stores))) []
           else Inr [])
       (\<lambda>issue_map.
     bind (if truthy (ds_comments stores)
           then for_each (add_comment json_loads cs)
                  (load_from_store db (the (ds_comments stores))) ([], [])
           else Inr ([], []))
       (\<lambda>comment_maps.
     Inr \<lparr>ld_teams = team_map, ld_users = user_map, ld_states = state_map, ld_issues = issue_map,
          ld_comments = fst comment_maps, ld_comments_by_issue = snd comment_maps,
          ld_loaded_at = now\<rparr>)))))"

text \<open>
  Modelled from the spec: the pattern of a well-formed identifier,
  \<open>^[A-Z???][A-Z0-9]*-\d+$\<close>, matched against the whole string: a capital letter or
  question mark, then capital letters and digits, a hyphen, and one or more digits.
\<close>

definition matches_identifier_pattern :: "string \<Rightarrow> bool" where
  "matches_identifier_pattern s =
     (case s of
        [] \<Rightarrow> False
      | c # rest \<Rightarrow>
          (c \<in> set upper_letters \<or> c = CHR ''?'')
          \<and> (case dropWhile (\<lambda>x. x \<in> set upper_letters \<or> x \<in> set digit_chars) rest of
                [] \<Rightarrow> False
              | d # ds \<Rightarrow> d = CHR ''-'' \<and> ds \<noteq> [] \<and> list_all (\<lambda>x. x \<in> set digit_chars) ds))"

text \<open>A store of teams and a store of issues for the examples, and what loading them gives.\<close>

definition example_stores :: DetectedStores where
  "example_stores = \<lparr>ds_issues = Some ''I'', ds_teams = Some ''T'', ds_users = Some [],
     ds_workflow_states = Some [], ds_comments = None, ds_projects = None\<rparr>"

definition example_db :: "string \<Rightarrow> pyval list" where
  "example_db store_name =
     (if store_name = ''T'' then
        [PDict [(''id'', PStr ''t1''), (''key'', PStr ''ENG''), (''name'', PStr ''Engineering'')],
         PDict [(''id'', PStr ''t2''), (''key'', PStr ''Ops''), (''name'', PStr ''Operations'')],
         PDict [(''id'', PStr ''t3''), (''key'', PStr ''???''), (''name'', PStr ''Unsorted'')]]
      else if store_name = ''I'' then
        [PDict [(''id'', PStr ''i1''), (''teamId'', PStr ''t1''), (''number'', PInt 7)],
         PDict [(''id'', PStr ''i2''), (''teamId'', PStr ''t2''), (''number'', PInt 8)],
         PDict [(''id'', PStr ''i3''), (''teamId'', PStr ''t3''), (''number'', PInt 9)],
         PDict [(''id'', PStr ''i4''), (''teamId'', PStr ''gone''), (''number'', PInt 10)]]
      else [])"

definition issue_of :: "string \<Rightarrow> string \<Rightarrow> string \<Rightarrow> int \<Rightarrow> pyval \<times> issue_entry" where
  "issue_of i ident team_ref number =
     (PStr i, \<lparr>ie_id = PStr i, ie_identifier = ident, ie_title = PNone, ie_number = PInt number,
        ie_priority = PNone, ie_teamId = PStr team_ref, ie_stateId = PNone,
        ie_assigneeId = PNone, ie_projectId = PNone, ie_labelIds = PList [],
        ie_createdAt = PNone, ie_updatedAt = PNone\<rparr>)"

definition team_of :: "string \<Rightarrow> string \<Rightarrow> string \<Rightarrow> pyval \<times> team_entry" where
  "team_of i key name = (PStr i, \<lparr>te_id = PStr i, te_key = PStr key, te_name = PStr name\<rparr>)"

definition example_snapshot :: LoadedData where
  "example_snapshot =
     \<lparr>ld_teams = [team_of ''t1'' ''ENG'' ''Engineering'', team_of ''t2'' ''Ops'' ''Operations'',
                  team_of ''t3'' ''???'' ''Unsorted''],
      ld_users = [], ld_states = [],
      ld_issues = [issue_of ''i1'' ''ENG-7'' ''t1'' 7, issue_of ''i2'' ''Ops-8'' ''t2'' 8,
                   issue_of ''i3'' ''???-9'' ''t3'' 9, issue_of ''i4'' ''???-10'' ''gone'' 10],
      ld_comments = [], ld_comments_by_issue = [], ld_loaded_at = 0\<rparr>"


section \<open>Properties\<close>

subsection \<open>Reload policy\<close>

text \<open>
  C7. A query reloads the snapshot exactly when more than 300 seconds have passed since
  the snapshot was loaded, or when the snapshot holds no team. With a team loaded, a
  query 299 seconds after the load keeps the snapshot, one 301 seconds after reloads.
\<close>

theorem reload_policy:
  "ensure_cache reload_cache now cache =
     (if now - loaded_at cache > 300 \<or> teams cache = [] then reload_cache now else Inr cache)
   \<and> (teams cache \<noteq> [] \<longrightarrow>
        ensure_cache reload_cache (loaded_at cache + 299) cache = Inr cache
      \<and> ensure_cache reload_cache (loaded_at cache + 301) cache
          = reload_cache (loaded_at cache + 301))"
  by (simp add: ensure_cache_def is_expired_def CACHE_TTL_SECONDS_def)

theorem reload_policy_witness:
  "teams \<lparr>teams = [\<lparr>team_id = ''t1'', team_key = Some ''ENG'', team_name = Some ''Eng''\<rparr>],
      users = [], states = [], issues = [], loaded_at = 1000\<rparr> \<noteq> []
   \<and> ensure_cache (\<lambda>_. Inl FileNotFoundError) 1299
        \<lparr>teams = [\<lparr>team_id = ''t1'', team_key = Some ''ENG'', team_name = Some ''Eng''\<rparr>],
          users = [], states = [], issues = [], loaded_at = 1000\<rparr>
      = Inr \<lparr>teams = [\<lparr>team_id = ''t1'', team_key = Some ''ENG'', team_name = Some ''Eng''\<rparr>],
          users = [], states = [], issues = [], loaded_at = 1000\<rparr>
   \<and> ensure_cache (\<lambda>_. Inl FileNotFoundError) 1301
        \<lparr>teams = [\<lparr>team_id = ''t1'', team_key = Some ''ENG'', team_name = Some ''Eng''\<rparr>],
          users = [], states = [], issues = [], loaded_at = 1000\<rparr>
      = Inl FileNotFoundError"
  using reload_policy [of "\<lambda>_. Inl FileNotFoundError" 0
      "\<lparr>teams = [\<lparr>team_id = ''t1'', team_key = Some ''ENG'', team_name = Some ''Eng''\<rparr>],
        users = [], states = [], issues = [], loaded_at = 1000\<rparr>"]
  by simp

subsection \<open>Canonical order\<close>

text \<open>
  C2, as stated, at the issues X(priority=0, id="1") and Y(priority=1, id="2"): the
  lower priority number 0 does not sort first, because \<open>0 or 4\<close> is 4. Y comes
  before X.
\<close>

theorem canonical_order_priority_zero:
  "all_issues [mk_issue ''1'' (Some 0), mk_issue ''2'' (Some 1)]
     = [mk_issue ''2'' (Some 1), mk_issue ''1'' (Some 0)]
   \<and> priority (mk_issue ''1'' (Some 0)) = Some 0
   \<and> priority (mk_issue ''2'' (Some 1)) = Some 1"
  by (simp add: all_issues_def sort_key_of_def priority_or_4_def mk_issue_def)

text \<open>
  C2, amended. The sorted list is a rearrangement of the candidates, ascending by the
  pair (k, id), where k is the priority, except that a missing priority and the
  priority 0 both count as 4; pairs are compared by k first and by id, as strings,
  among equal k. The issues A(priority=1, id="2"), B(priority=1, id="1"),
  C(priority=None, id="3") come out as B, A, C.
\<close>

theorem canonical_order:
  "sorted (map sort_key_of (all_issues xs))
   \<and> mset (all_issues xs) = mset xs
   \<and> sort_key_of a
       = (case priority a of None \<Rightarrow> 4 | Some n \<Rightarrow> if n = 0 then 4 else n, issue_id a)
   \<and> (sort_key_of a \<le> sort_key_of b \<longleftrightarrow>
        fst (sort_key_of a) < fst (sort_key_of b)
        \<or> (fst (sort_key_of a) = fst (sort_key_of b) \<and> issue_id a \<le> issue_id b))
   \<and> all_issues [mk_issue ''2'' (Some 1), mk_issue ''1'' (Some 1), mk_issue ''3'' None]
       = [mk_issue ''1'' (Some 1), mk_issue ''2'' (Some 1), mk_issue ''3'' None]"
proof -
  have "sorted (map sort_key_of (all_issues xs))" and "mset (all_issues xs) = mset xs"
    by (simp_all add: all_issues_def)
  moreover have "sort_key_of a
       = (case priority a of None \<Rightarrow> 4 | Some n \<Rightarrow> if n = 0 then 4 else n, issue_id a)"
    by (simp add: sort_key_of_def priority_or_4_def)
  moreover have "sort_key_of a \<le> sort_key_of b \<longleftrightarrow>
        fst (sort_key_of a) < fst (sort_key_of b)
        \<or> (fst (sort_key_of a) = fst (sort_key_of b) \<and> issue_id a \<le> issue_id b)"
    by (auto simp add: sort_key_of_def)
  moreover have
    "all_issues [mk_issue ''2'' (Some 1), mk_issue ''1'' (Some 1), mk_issue ''3'' None]
       = [mk_issue ''1'' (Some 1), mk_issue ''2'' (Some 1), mk_issue ''3'' None]"
    by (simp add: all_issues_def sort_key_of_def priority_or_4_def mk_issue_def)
  ultimately show ?thesis by blast
qed

subsection \<open>Finding a team\<close>

text \<open>
  C4, as stated, at the search "data" and the teams (key ENG, name "Data Platform"),
  (key DATA, name "Other") in this order: the second team's key matches exactly, the
  first matches only by its name, and the first is returned.
\<close>

theorem find_team_earlier_name_match_wins:
  "find_team ''data''
     [\<lparr>team_id = ''t1'', team_key = Some ''ENG'', team_name = Some ''Data Platform''\<rparr>,
      \<lparr>team_id = ''t2'', team_key = Some ''DATA'', team_name = Some ''Other''\<rparr>]
   = Some \<lparr>team_id = ''t1'', team_key = Some ''ENG'', team_name = Some ''Data Platform''\<rparr>"
  by code_simp

text \<open>
  C4, amended. \<open>find_team\<close> returns the first team, in iteration order, whose key
  equals the upper-cased search or whose lower-cased name contains the lower-cased
  search; both tests are one condition on each team, so neither kind of match is
  preferred across teams. It returns nothing when no team passes.
\<close>

theorem find_team_first_match:
  "find_team search ts
     = find (\<lambda>t. team_key t = Some (upper search)
                 \<or> contains (lower search) (lower (to_str (team_name t)))) ts"
  by (induction ts) auto

subsection \<open>Finding a user\<close>

text \<open>The head of a stable sort is the first element with the least key.\<close>

lemma sort_key_head:
  "sort_key f xs = y # ys \<Longrightarrow>
     \<exists>pre post. xs = pre @ y # post \<and> (\<forall>v\<in>set pre. f y < f v) \<and> (\<forall>v\<in>set post. f y \<le> f v)"
proof (induction xs arbitrary: y ys)
  case Nil
  then show ?case by simp
next
  case (Cons x xs)
  show ?case
  proof (cases "sort_key f xs")
    case Nil
    then have "xs = []" by (metis length_sort list.size(3) length_0_conv)
    with Cons.prems have "y = x" by simp
    with \<open>xs = []\<close> show ?thesis by (intro exI [of _ "[]"]) simp
  next
    case (Cons z zs)
    from Cons.IH [OF Cons] obtain pre post where
      d: "xs = pre @ z # post" "\<forall>v\<in>set pre. f z < f v" "\<forall>v\<in>set post. f z \<le> f v"
      by blast
    show ?thesis
    proof (cases "f x \<le> f z")
      case True
      with Cons Cons.prems have "y = x" by simp
      moreover have "\<forall>v\<in>set xs. f x \<le> f v" using d True by fastforce
      ultimately show ?thesis by (intro exI [of _ "[]"] exI [of _ xs]) simp
    next
      case False
      with Cons Cons.prems have "y = z" by simp
      with d False show ?thesis
        by (intro exI [of _ "x # pre"] exI [of _ post]) auto
    qed
  qed
qed

lemma candidates_eq:
  "candidates search us = map (\<lambda>u. (the (user_score search u), u))
      (filter (\<lambda>u. user_score search u \<noteq> None) us)"
  by (induction us) (auto split: option.splits)

lemma user_score_None:
  "user_score search u = None \<longleftrightarrow>
     \<not> (contains (lower search) (lower (to_str (user_name u)))
        \<or> contains (lower search) (lower (to_str (user_displayName u))))"
  by (simp add: user_score_def Let_def)

lemma user_score_Some:
  "user_score search u = Some k \<Longrightarrow>
     k = (if startswith (lower (to_str (user_name u))) (lower search) then 100
          else if contains (CHR '' '' # lower search) (CHR '' '' # lower (to_str (user_name u)))
          then 50
          else if startswith (lower (to_str (user_displayName u))) (lower search) then 40
          else 10)"
  by (simp add: user_score_def Let_def split: if_splits)

text \<open>
  C5. The candidates of \<open>find_user\<close> are exactly the users whose name or display
  name contains the search term, both lower-cased, in iteration order; each carries
  the score 100, 50, 40 or 10 by the four tests in this order. The result is nothing
  exactly when there is no candidate; otherwise it is a candidate whose score no
  candidate exceeds and no earlier candidate reaches. For "daniel", "Daniel Kessl"
  scores 100, "Zachary McDaniel" scores 10, and the former is returned although it
  comes second.
\<close>

theorem find_user_best_match:
  "map snd (candidates search us)
     = filter (\<lambda>u. contains (lower search) (lower (to_str (user_name u)))
                  \<or> contains (lower search) (lower (to_str (user_displayName u)))) us
   \<and> (\<forall>c\<in>set (candidates search us).
        fst c = (if startswith (lower (to_str (user_name (snd c)))) (lower search) then 100
                 else if contains (CHR '' '' # lower search)
                           (CHR '' '' # lower (to_str (user_name (snd c)))) then 50
                 else if startswith (lower (to_str (user_displayName (snd c)))) (lower search)
                 then 40
                 else 10))
   \<and> (find_user search us = None \<longleftrightarrow> candidates search us = [])
   \<and> (\<forall>u. find_user search us = Some u \<longrightarrow>
        (\<exists>score pre post. candidates search us = pre @ (score, u) # post
           \<and> (\<forall>c\<in>set pre. fst c < score) \<and> (\<forall>c\<in>set post. fst c \<le> score)))
   \<and> user_score ''daniel'' daniel = Some 100
   \<and> user_score ''daniel'' zachary = Some 10
   \<and> find_user ''daniel'' [zachary, daniel] = Some daniel"
proof (intro conjI)
  show "map snd (candidates search us)
     = filter (\<lambda>u. contains (lower search) (lower (to_str (user_name u)))
                  \<or> contains (lower search) (lower (to_str (user_displayName u)))) us"
    by (simp add: candidates_eq user_score_None comp_def)
next
  show "\<forall>c\<in>set (candidates search us).
        fst c = (if startswith (lower (to_str (user_name (snd c)))) (lower search) then 100
                 else if contains (CHR '' '' # lower search)
                           (CHR '' '' # lower (to_str (user_name (snd c)))) then 50
                 else if startswith (lower (to_str (user_displayName (snd c)))) (lower search)
                 then 40
                 else 10)"
  proof
    fix c assume "c \<in> set (candidates search us)"
    then obtain u where "c = (the (user_score search u), u)" "user_score search u \<noteq> None"
      by (auto simp add: candidates_eq)
    then obtain k where "user_score search u = Some k" "c = (k, u)" by auto
    then show "fst c = (if startswith (lower (to_str (user_name (snd c)))) (lower search) then 100
                 else if contains (CHR '' '' # lower search)
                           (CHR '' '' # lower (to_str (user_name (snd c)))) then 50
                 else if startswith (lower (to_str (user_displayName (snd c)))) (lower search)
                 then 40
                 else 10)"
      using user_score_Some [of search u k] by simp
  qed
next
  have "sort_key (\<lambda>x. - fst x) (candidates search us) = [] \<longleftrightarrow> candidates search us = []"
    by (metis length_sort length_0_conv)
  then show "find_user search us = None \<longleftrightarrow> candidates search us = []"
    by (cases "sort_key (\<lambda>x. - fst x) (candidates search us)") (simp_all add: find_user_def)
next
  show "\<forall>u. find_user search us = Some u \<longrightarrow>
        (\<exists>score pre post. candidates search us = pre @ (score, u) # post
           \<and> (\<forall>c\<in>set pre. fst c < score) \<and> (\<forall>c\<in>set post. fst c \<le> score))"
  proof (intro allI impI)
    fix u assume "find_user search us = Some u"
    then obtain k ys where "sort_key (\<lambda>x. - fst x) (candidates search us) = (k, u) # ys"
      by (auto simp add: find_user_def split: list.splits)
    from sort_key_head [OF this] obtain pre post where
      "candidates search us = pre @ (k, u) # post"
      "\<forall>v\<in>set pre. - fst (k, u) < - fst v" "\<forall>v\<in>set post. - fst (k, u) \<le> - fst v"
      by blast
    then show "\<exists>score pre post. candidates search us = pre @ (score, u) # post
           \<and> (\<forall>c\<in>set pre. fst c < score) \<and> (\<forall>c\<in>set post. fst c \<le> score)"
      by (intro exI [of _ k] exI [of _ pre] exI [of _ post]) simp
  qed
next
  show "user_score ''daniel'' daniel = Some 100"
    by code_simp
next
  show "user_score ''daniel'' zachary = Some 10"
    by code_simp
next
  show "find_user ''daniel'' [zachary, daniel] = Some daniel"
    by code_simp
qed

theorem find_user_best_match_witness:
  "find_user ''daniel'' [zachary, daniel] = Some daniel
   \<and> (\<exists>score pre post. candidates ''daniel'' [zachary, daniel] = pre @ (score, daniel) # post
         \<and> (\<forall>c\<in>set pre. fst c < score) \<and> (\<forall>c\<in>set post. fst c \<le> score))"
proof -
  have found: "find_user ''daniel'' [zachary, daniel] = Some daniel"
    by code_simp
  from find_user_best_match [of "''daniel''" "[zachary, daniel]"] found
  show ?thesis by blast
qed

subsection \<open>Pagination\<close>


lemma skip_unknown: "cur \<notin> issue_id ` set xs \<Longrightarrow> skip_to_cursor cur xs = []"
  by (induction xs) auto

lemma paginate_unknown:
  "cur \<noteq> [] \<Longrightarrow> cur \<notin> issue_id ` set xs \<Longrightarrow> paginate limit (Some cur) xs = ([], None)"
  by (simp add: paginate_def skip_unknown py_take_def)

lemma list_issues_total:
  "lr_totalCount (list_issues f c a t st p ua limit cursor)
     = length (filtered_candidates f c a t st p ua)"
  by (cases "resolve_filters f c a t ua") (simp_all add: list_issues_def filtered_candidates_def Let_def)

lemma paginate_Nil: "paginate limit cursor [] = ([], None)"
  by (simp add: paginate_def py_take_def split: option.splits)

lemma list_issues_page:
  "lr_issues (list_issues f c a t st p ua limit cursor)
     = map (enrich c) (fst (paginate (min limit 100) cursor (filtered_candidates f c a t st p ua)))"
  "lr_nextCursor (list_issues f c a t st p ua limit cursor)
     = snd (paginate (min limit 100) cursor (filtered_candidates f c a t st p ua))"
  by (cases "resolve_filters f c a t ua";
      simp add: list_issues_def filtered_candidates_def Let_def paginate_Nil)+



lemma skip_distinct:
  "distinct (map issue_id xs) \<Longrightarrow> k < length xs \<Longrightarrow>
     skip_to_cursor (issue_id (xs ! k)) xs = drop (Suc k) xs"
proof (induction xs arbitrary: k)
  case Nil then show ?case by simp
next
  case (Cons x xs)
  show ?case
  proof (cases k)
    case 0 then show ?thesis by simp
  next
    case (Suc j)
    with Cons.prems have j: "j < length xs" by simp
    then have "issue_id (xs ! j) \<in> issue_id ` set xs" by simp
    with Cons.prems have "issue_id x \<noteq> issue_id (xs ! j)" by auto
    moreover from Cons.prems have "distinct (map issue_id xs)" by simp
    ultimately show ?thesis using Cons.IH [of j] j Suc by simp
  qed
qed

lemma skip_is_drop:
  "skip_to_cursor cur xs = tl (dropWhile (\<lambda>i. issue_id i \<noteq> cur) xs)"
  by (induction xs) auto

lemma cut_page:
  assumes "1 \<le> limit"
  shows "(let page = py_take (limit + 1) rest;
          has_more = (int (length page) > limit);
          page = py_take limit page;
          next_cursor = (if has_more \<and> page \<noteq> [] then Some (issue_id (last page)) else None)
      in (page, next_cursor)) = page_of (nat limit) rest"
proof -
  define n where "n = nat limit"
  have n: "limit = int n" "1 \<le> n" using assms by (simp_all add: n_def)
  have t1: "py_take (limit + 1) rest = take (Suc n) rest"
    using n by (simp add: py_take_def nat_add_distrib)
  have t2: "py_take limit (take (Suc n) rest) = take n rest"
    using n by (simp add: py_take_def min_def)
  show ?thesis
  proof (cases "n < length rest")
    case True
    have ne: "take n rest \<noteq> []" using True n by auto
    have len: "length (take n rest) = n" using True by simp
    have "last (take n rest) = take n rest ! (n - 1)"
      using last_conv_nth [OF ne] len by simp
    also have "\<dots> = rest ! (n - 1)" using n by simp
    finally have "last (take n rest) = rest ! (n - 1)" .
    with ne show ?thesis using True n t1 t2
      by (simp add: page_of_def Let_def min_def)
  next
    case False
    then show ?thesis using n t1 t2 by (simp add: page_of_def Let_def min_def)
  qed
qed

lemma paginate_start:
  "1 \<le> limit \<Longrightarrow> paginate limit None xs = page_of (nat limit) xs"
  using cut_page [of limit xs] by (simp add: paginate_def)

lemma paginate_after:
  "1 \<le> limit \<Longrightarrow> distinct (map issue_id xs) \<Longrightarrow> k < length xs \<Longrightarrow> issue_id (xs ! k) \<noteq> [] \<Longrightarrow>
     paginate limit (Some (issue_id (xs ! k))) xs = page_of (nat limit) (drop (Suc k) xs)"
  using cut_page [of limit "drop (Suc k) xs"] by (simp add: paginate_def skip_distinct)



lemma collect_after:
  assumes lim: "1 \<le> limit"
    and dist: "distinct (map issue_id F)"
    and nonempty: "\<forall>i\<in>set F. issue_id i \<noteq> []"
    and issues_call: "\<And>cursor. lr_issues (call cursor) = map g (fst (paginate limit cursor F))"
    and next_call: "\<And>cursor. lr_nextCursor (call cursor) = snd (paginate limit cursor F)"
  shows "k < length F \<Longrightarrow> length F - Suc k < n \<Longrightarrow>
     collect_pages n call (Some (issue_id (F ! k))) = Some (map g (drop (Suc k) F))"
proof (induction n arbitrary: k)
  case 0
  then show ?case by simp
next
  case (Suc n)
  define L where "L = nat limit"
  define R where "R = drop (Suc k) F"
  have L: "1 \<le> L" using lim by (simp add: L_def)
  from Suc.prems nonempty have "issue_id (F ! k) \<noteq> []" by simp
  with lim dist Suc.prems
  have pg: "paginate limit (Some (issue_id (F ! k))) F = page_of L R"
    by (simp add: paginate_after L_def R_def)
  show ?case
  proof (cases "L < length R")
    case False
    then have "take L R = R" by simp
    with False pg show ?thesis
      by (simp add: issues_call next_call page_of_def R_def Let_def)
  next
    case True
    then have k': "k + L < length F" by (simp add: R_def)
    have idx: "R ! (L - 1) = F ! (k + L)"
      using True L by (simp add: R_def)
    have fuel: "length F - Suc (k + L) < n" using Suc.prems L k' by arith
    have rest: "collect_pages n call (Some (issue_id (F ! (k + L))))
        = Some (map g (drop (Suc (k + L)) F))"
      using Suc.IH [OF k' fuel] .
    have split: "take L R @ drop (Suc (k + L)) F = R"
    proof -
      have "drop (Suc (k + L)) F = drop L R" by (simp add: R_def add.commute)
      then show ?thesis by simp
    qed
    have "map g (take L R) @ map g (drop (Suc (k + L)) F) = map g R"
      using split by (metis map_append)
    with True pg idx rest show ?thesis
      by (simp add: issues_call next_call page_of_def Let_def R_def)
  qed
qed

lemma collect_start:
  assumes lim: "1 \<le> limit"
    and dist: "distinct (map issue_id F)"
    and nonempty: "\<forall>i\<in>set F. issue_id i \<noteq> []"
    and issues_call: "\<And>cursor. lr_issues (call cursor) = map g (fst (paginate limit cursor F))"
    and next_call: "\<And>cursor. lr_nextCursor (call cursor) = snd (paginate limit cursor F)"
    and fuel: "length F < n"
  shows "collect_pages n call None = Some (map g F)"
proof -
  define L where "L = nat limit"
  have L: "1 \<le> L" using lim by (simp add: L_def)
  obtain m where n: "n = Suc m" using fuel by (cases n) auto
  have pg: "paginate limit None F = page_of L F"
    using lim by (simp add: paginate_start L_def)
  show ?thesis
  proof (cases "L < length F")
    case False
    then have "take L F = F" by simp
    with False pg show ?thesis
      by (simp add: n issues_call next_call page_of_def Let_def)
  next
    case True
    then have k: "L - 1 < length F" by simp
    have f: "length F - Suc (L - 1) < m" using fuel n L True by simp
    have "collect_pages m call (Some (issue_id (F ! (L - 1)))) = Some (map g (drop (Suc (L - 1)) F))"
      using collect_after [OF lim dist nonempty issues_call next_call k f] .
    moreover have "Suc (L - 1) = L" using L by simp
    moreover have "map g (take L F) @ map g (drop L F) = map g F"
      by (metis map_append append_take_drop_id)
    ultimately show ?thesis using True pg
      by (simp add: n issues_call next_call page_of_def Let_def)
  qed
qed

lemma all_issues_distinct:
  "distinct (map issue_id xs) \<Longrightarrow> distinct (map issue_id (all_issues xs))"
proof -
  assume d: "distinct (map issue_id xs)"
  have "mset (map issue_id (all_issues xs)) = mset (map issue_id xs)"
    by (simp add: all_issues_def)
  then show ?thesis using d by (metis mset_eq_imp_distinct_iff)
qed

lemma filtered_candidates_subset:
  "set (filtered_candidates f c a t st p ua) \<subseteq> set (issues c)"
  by (cases "resolve_filters f c a t ua") (auto simp add: filtered_candidates_def all_issues_def)

lemma filtered_candidates_distinct:
  "distinct (map issue_id (issues c)) \<Longrightarrow>
     distinct (map issue_id (filtered_candidates f c a t st p ua))"
  by (cases "resolve_filters f c a t ua")
    (simp_all add: filtered_candidates_def all_issues_distinct distinct_map_filter)

lemma paginate_fst:
  "1 \<le> limit \<Longrightarrow> fst (paginate limit cursor xs)
     = take (nat limit) (if truthy cursor then tl (dropWhile (\<lambda>i. issue_id i \<noteq> the cursor) xs) else xs)"
proof -
  assume lim: "1 \<le> limit"
  define rest where "rest = (case cursor of None \<Rightarrow> xs
                      | Some cur \<Rightarrow> if cur \<noteq> [] then skip_to_cursor cur xs else xs)"
  have "paginate limit cursor xs = page_of (nat limit) rest"
    using cut_page [OF lim, of rest] by (simp add: paginate_def rest_def)
  moreover have "rest = (if truthy cursor then tl (dropWhile (\<lambda>i. issue_id i \<noteq> the cursor) xs) else xs)"
    by (cases cursor) (simp_all add: rest_def truthy_def skip_is_drop)
  ultimately show ?thesis by (simp add: page_of_def)
qed

lemma paginate_snd:
  "1 \<le> limit \<Longrightarrow> snd (paginate limit cursor xs)
     = (if nat limit
            < length (if truthy cursor then tl (dropWhile (\<lambda>i. issue_id i \<noteq> the cursor) xs)
                      else xs)
        then Some (issue_id ((if truthy cursor
                              then tl (dropWhile (\<lambda>i. issue_id i \<noteq> the cursor) xs)
                              else xs) ! (nat limit - 1)))
        else None)"
proof -
  assume lim: "1 \<le> limit"
  define rest where "rest = (case cursor of None \<Rightarrow> xs
                      | Some cur \<Rightarrow> if cur \<noteq> [] then skip_to_cursor cur xs else xs)"
  have "paginate limit cursor xs = page_of (nat limit) rest"
    using cut_page [OF lim, of rest] by (simp add: paginate_def rest_def)
  moreover have "rest = (if truthy cursor then tl (dropWhile (\<lambda>i. issue_id i \<noteq> the cursor) xs) else xs)"
    by (cases cursor) (simp_all add: rest_def truthy_def skip_is_drop)
  ultimately show ?thesis by (simp add: page_of_def)
qed

lemma abc_candidates:
  "filtered_candidates (\<lambda>_. None) snapshot_abc None None None None None
     = [(mk_issue ''1'' (Some 1))\<lparr>assigneeId := Some ''u2''\<rparr>, mk_issue ''2'' (Some 1), mk_issue ''3'' None]"
  by code_simp

text \<open>
  C1, as stated, at a snapshot whose issues have the ids "" and "a", without filters,
  with limit 1: the first page holds the issue "" and its \<open>nextCursor\<close> is "";
  the call with that cursor takes it for no cursor and returns the same page and the
  same cursor again. The chained pages repeat the first issue, never reach the issue
  "a", and three calls do not end the chain.
\<close>

theorem list_issues_empty_id_repeats_page:
  "filtered_candidates (\<lambda>_. None) snapshot_empty_id None None None None None
     = [mk_issue [] None, mk_issue ''a'' None]
   \<and> lr_issues (list_issues (\<lambda>_. None) snapshot_empty_id None None None None None 1 None)
       = [enrich snapshot_empty_id (mk_issue [] None)]
   \<and> lr_nextCursor (list_issues (\<lambda>_. None) snapshot_empty_id None None None None None 1 None)
       = Some []
   \<and> lr_issues (list_issues (\<lambda>_. None) snapshot_empty_id None None None None None 1 (Some []))
       = [enrich snapshot_empty_id (mk_issue [] None)]
   \<and> lr_nextCursor (list_issues (\<lambda>_. None) snapshot_empty_id None None None None None 1 (Some []))
       = Some []
   \<and> collect_pages 3 (list_issues (\<lambda>_. None) snapshot_empty_id None None None None None 1) None
       = None"
  by code_simp

text \<open>
  C1, amended. When the ids of the issues are pairwise different (they are the keys of
  the issue map) and none is the empty string, then for every fixed filter set and
  every limit of at least 1 the pages obtained by chaining each \<open>nextCursor\<close> into
  the next call, concatenated, are exactly the canonically sorted filtered list, each
  issue once; the chain ends within one call more than the list is long. Each page is
  the first \<open>min limit 100\<close> issues of what remains of the filtered list after
  dropping everything up to and including the issue whose id is the cursor; its
  \<open>nextCursor\<close> is the id of the last issue of the page exactly when more than
  \<open>min limit 100\<close> issues remained (which the code detects by taking one issue more
  than the limit), and null otherwise.
\<close>

theorem list_issues_pages_cover:
  assumes "1 \<le> limit"
    and "distinct (map issue_id (issues c))"
    and "\<forall>i\<in>set (issues c). issue_id i \<noteq> []"
    and "length (filtered_candidates f c a t st p ua) < n"
  shows "collect_pages n (list_issues f c a t st p ua limit) None
           = Some (map (enrich c) (filtered_candidates f c a t st p ua))
       \<and> distinct (map issue_id (filtered_candidates f c a t st p ua))
       \<and> lr_issues (list_issues f c a t st p ua limit cursor)
           = map (enrich c) (take (nat (min limit 100))
               (if truthy cursor
                then tl (dropWhile (\<lambda>i. issue_id i \<noteq> the cursor)
                          (filtered_candidates f c a t st p ua))
                else filtered_candidates f c a t st p ua))
       \<and> lr_nextCursor (list_issues f c a t st p ua limit cursor)
           = (if nat (min limit 100)
                  < length (if truthy cursor
                            then tl (dropWhile (\<lambda>i. issue_id i \<noteq> the cursor)
                                      (filtered_candidates f c a t st p ua))
                            else filtered_candidates f c a t st p ua)
              then Some (issue_id
                     ((if truthy cursor
                       then tl (dropWhile (\<lambda>i. issue_id i \<noteq> the cursor)
                                 (filtered_candidates f c a t st p ua))
                       else filtered_candidates f c a t st p ua) ! (nat (min limit 100) - 1)))
              else None)"
proof -
  define F where "F = filtered_candidates f c a t st p ua"
  have lim: "1 \<le> min limit 100" using assms(1) by simp
  have dist: "distinct (map issue_id F)"
    using assms(2) by (simp add: F_def filtered_candidates_distinct)
  have ne: "\<forall>i\<in>set F. issue_id i \<noteq> []"
    using assms(3) filtered_candidates_subset [of f c a t st p ua] by (auto simp add: F_def)
  have "collect_pages n (list_issues f c a t st p ua limit) None = Some (map (enrich c) F)"
    using assms(4)
    by (intro collect_start [OF lim dist ne]) (simp_all add: F_def list_issues_page)
  moreover have "lr_issues (list_issues f c a t st p ua limit cursor)
           = map (enrich c) (take (nat (min limit 100))
               (if truthy cursor then tl (dropWhile (\<lambda>i. issue_id i \<noteq> the cursor) F) else F))"
    using paginate_fst [OF lim, of cursor F] by (simp add: list_issues_page F_def)
  moreover have "lr_nextCursor (list_issues f c a t st p ua limit cursor)
           = (if nat (min limit 100)
                  < length (if truthy cursor
                            then tl (dropWhile (\<lambda>i. issue_id i \<noteq> the cursor) F) else F)
              then Some (issue_id
                     ((if truthy cursor
                       then tl (dropWhile (\<lambda>i. issue_id i \<noteq> the cursor) F) else F)
                      ! (nat (min limit 100) - 1)))
              else None)"
    using paginate_snd [OF lim, of cursor F] by (simp only: list_issues_page F_def)
  ultimately show ?thesis using dist unfolding F_def by blast
qed

theorem list_issues_pages_cover_witness:
  "collect_pages 4 (list_issues (\<lambda>_. None) snapshot_abc None None None None None 2) None
     = Some (map (enrich snapshot_abc)
         [(mk_issue ''1'' (Some 1))\<lparr>assigneeId := Some ''u2''\<rparr>, mk_issue ''2'' (Some 1),
          mk_issue ''3'' None])"
proof -
  have "distinct (map issue_id (issues snapshot_abc))"
    and "\<forall>i\<in>set (issues snapshot_abc). issue_id i \<noteq> []"
    by (simp_all add: snapshot_abc_def mk_issue_def)
  moreover have "length (filtered_candidates (\<lambda>_. None) snapshot_abc None None None None None) < 4"
    by (simp add: abc_candidates)
  ultimately show ?thesis
    using list_issues_pages_cover [of 2 snapshot_abc "\<lambda>_. None" None None None None None 4]
    by (simp add: abc_candidates)
qed

subsection \<open>A cursor that names no issue\<close>

lemma search_issues_fields:
  "lr_issues (search_issues c q limit cursor)
     = map (enrich c) (fst (paginate (min limit 100) cursor (search_matching c q)))"
  "lr_nextCursor (search_issues c q limit cursor)
     = snd (paginate (min limit 100) cursor (search_matching c q))"
  "lr_totalCount (search_issues c q limit cursor) = length (search_matching c q)"
  by (simp_all add: search_issues_def Let_def)

lemma get_my_issues_found:
  "find_user name (users c) = Some u \<Longrightarrow> updated_after_filter f ua = Inr ts \<Longrightarrow>
     \<exists>pg. get_my_issues f c name st ua limit cursor = MyPage pg
        \<and> mp_issues pg = map (compact_of c) (fst (paginate (min limit 100) cursor (my_matching f c u st ts)))
        \<and> mp_nextCursor pg = snd (paginate (min limit 100) cursor (my_matching f c u st ts))
        \<and> mp_matchingCount pg = length (my_matching f c u st ts)"
  by (simp add: get_my_issues_def Let_def)

text \<open>
  C10, as stated, at \<open>get_my_issues\<close> for the name "nobody", which resolves to no
  user, with the cursor "zzz", which is the id of no issue: the call returns the error
  object of the unknown user, which has neither an issues list nor a next cursor.
\<close>

theorem get_my_issues_unknown_cursor_unknown_user:
  "find_user ''nobody'' (users snapshot_abc) = None
   \<and> ''zzz'' \<notin> issue_id ` set (issues snapshot_abc)
   \<and> get_my_issues (\<lambda>_. None) snapshot_abc ''nobody'' None None 2 (Some ''zzz'')
       = MyError (''User '' @ [CHR 0x27] @ ''nobody'' @ [CHR 0x27] @ '' not found'')"
proof -
  have "find_user ''nobody'' (users snapshot_abc) = None"
    by code_simp
  moreover have "''zzz'' \<notin> issue_id ` set (issues snapshot_abc)"
    by (simp add: snapshot_abc_def mk_issue_def)
  moreover have "get_my_issues (\<lambda>_. None) snapshot_abc ''nobody'' None None 2 (Some ''zzz'')
       = MyError (''User '' @ [CHR 0x27] @ ''nobody'' @ [CHR 0x27] @ '' not found'')"
    by code_simp
  ultimately show ?thesis by blast
qed

text \<open>
  C10, amended. A non-empty cursor that is the id of no issue of the filtered list
  gives no issues and no next cursor, while the count is still the length of the whole
  filtered list: in every call of \<open>list_issues\<close> and of \<open>search_issues\<close>, and in
  the calls of \<open>get_my_issues\<close> whose name resolves to a user and whose
  \<open>updated_after\<close> is absent, empty or accepted by the date parser (any other call
  of \<open>get_my_issues\<close> returns an error object only).
\<close>

theorem unknown_cursor_gives_empty_page:
  assumes "cur \<noteq> []"
  shows "(cur \<notin> issue_id ` set (filtered_candidates f c a t st p ua) \<longrightarrow>
            lr_issues (list_issues f c a t st p ua limit (Some cur)) = []
          \<and> lr_nextCursor (list_issues f c a t st p ua limit (Some cur)) = None
          \<and> lr_totalCount (list_issues f c a t st p ua limit (Some cur))
              = length (filtered_candidates f c a t st p ua))
       \<and> (cur \<notin> issue_id ` set (search_matching c q) \<longrightarrow>
            lr_issues (search_issues c q limit (Some cur)) = []
          \<and> lr_nextCursor (search_issues c q limit (Some cur)) = None
          \<and> lr_totalCount (search_issues c q limit (Some cur)) = length (search_matching c q))
       \<and> (find_user name (users c) = Some u \<and> updated_after_filter f ua = Inr ts
            \<and> cur \<notin> issue_id ` set (my_matching f c u st ts) \<longrightarrow>
            (\<exists>pg. get_my_issues f c name st ua limit (Some cur) = MyPage pg
               \<and> mp_issues pg = [] \<and> mp_nextCursor pg = None
               \<and> mp_matchingCount pg = length (my_matching f c u st ts)))"
proof (intro conjI impI)
  assume "cur \<notin> issue_id ` set (filtered_candidates f c a t st p ua)"
  with assms have pg: "paginate (min limit 100) (Some cur) (filtered_candidates f c a t st p ua) = ([], None)"
    by (rule paginate_unknown)
  show "lr_issues (list_issues f c a t st p ua limit (Some cur)) = []"
    and "lr_nextCursor (list_issues f c a t st p ua limit (Some cur)) = None"
    and "lr_totalCount (list_issues f c a t st p ua limit (Some cur))
              = length (filtered_candidates f c a t st p ua)"
    by (simp_all add: list_issues_page list_issues_total pg)
next
  assume "cur \<notin> issue_id ` set (search_matching c q)"
  with assms have pg: "paginate (min limit 100) (Some cur) (search_matching c q) = ([], None)"
    by (rule paginate_unknown)
  show "lr_issues (search_issues c q limit (Some cur)) = []"
    and "lr_nextCursor (search_issues c q limit (Some cur)) = None"
    and "lr_totalCount (search_issues c q limit (Some cur)) = length (search_matching c q)"
    by (simp_all add: search_issues_fields pg)
next
  assume h: "find_user name (users c) = Some u \<and> updated_after_filter f ua = Inr ts
            \<and> cur \<notin> issue_id ` set (my_matching f c u st ts)"
  with assms have pg: "paginate (min limit 100) (Some cur) (my_matching f c u st ts) = ([], None)"
    by (intro paginate_unknown) simp_all
  from h get_my_issues_found [of name c u f ua ts st limit "Some cur"] pg
  show "\<exists>pg. get_my_issues f c name st ua limit (Some cur) = MyPage pg
               \<and> mp_issues pg = [] \<and> mp_nextCursor pg = None
               \<and> mp_matchingCount pg = length (my_matching f c u st ts)"
    by auto
qed

theorem unknown_cursor_gives_empty_page_witness:
  "lr_issues (list_issues (\<lambda>_. None) snapshot_abc None None None None None 2 (Some ''zzz'')) = []
   \<and> lr_nextCursor (list_issues (\<lambda>_. None) snapshot_abc None None None None None 2 (Some ''zzz''))
       = None
   \<and> lr_totalCount (list_issues (\<lambda>_. None) snapshot_abc None None None None None 2 (Some ''zzz''))
       = 3
   \<and> lr_issues (search_issues snapshot_abc [] 2 (Some ''zzz'')) = []
   \<and> lr_totalCount (search_issues snapshot_abc [] 2 (Some ''zzz'')) = 3
   \<and> (\<exists>pg. get_my_issues (\<lambda>_. None) snapshot_abc ''daniel'' None None 2 (Some ''zzz'') = MyPage pg
         \<and> mp_issues pg = [] \<and> mp_nextCursor pg = None \<and> mp_matchingCount pg = 1)"
proof -
  have c1: "filtered_candidates (\<lambda>_. None) snapshot_abc None None None None None
     = [(mk_issue ''1'' (Some 1))\<lparr>assigneeId := Some ''u2''\<rparr>, mk_issue ''2'' (Some 1), mk_issue ''3'' None]"
    by code_simp
  have c2: "search_matching snapshot_abc []
     = [(mk_issue ''1'' (Some 1))\<lparr>assigneeId := Some ''u2''\<rparr>, mk_issue ''2'' (Some 1), mk_issue ''3'' None]"
    by code_simp
  have c3: "find_user ''daniel'' (users snapshot_abc) = Some daniel"
    by code_simp
  have c4: "updated_after_filter (\<lambda>_. None) None = Inr None"
    by (simp add: updated_after_filter_def)
  have c5: "my_matching (\<lambda>_. None) snapshot_abc daniel None None
     = [(mk_issue ''1'' (Some 1))\<lparr>assigneeId := Some ''u2''\<rparr>]"
    by code_simp
  have z: "''zzz'' \<noteq> []" by simp
  show ?thesis
    using unknown_cursor_gives_empty_page [OF z, of "\<lambda>_. None" snapshot_abc None None None None None
        2 "[]" "''daniel''" daniel None]
    by (simp add: c1 c2 c3 c4 c5 mk_issue_def)
qed

subsection \<open>An unknown user in get_my_issues\<close>

text \<open>
  C9, as stated, at the unknown name "nobody" with the date filter "yesterday", which
  \<open>datetime.fromisoformat\<close> rejects: the date filter is checked before the user is
  looked up, and the error returned is the one about the date.
\<close>

theorem get_my_issues_bad_date_first:
  "find_user ''nobody'' (users snapshot_abc) = None
   \<and> get_my_issues (\<lambda>_. None) snapshot_abc ''nobody'' None (Some ''yesterday'') 20 None
       = MyError ''Invalid updated_after format: yesterday''"
  by code_simp

text \<open>
  C9, amended. For every name that resolves to no user, and an \<open>updated_after\<close>
  that is absent, empty or accepted by the date parser, \<open>get_my_issues\<close> returns
  exactly the error object with the message "User '<name>' not found", which carries
  neither an issues list nor counts.
\<close>

theorem get_my_issues_unknown_user:
  assumes "find_user name (users c) = None"
    and "updated_after_filter f ua = Inr ts"
  shows "get_my_issues f c name st ua limit cursor
     = MyError (''User '' @ [CHR 0x27] @ name @ [CHR 0x27] @ '' not found'')"
  using assms by (simp add: get_my_issues_def)

theorem get_my_issues_unknown_user_witness:
  "get_my_issues (\<lambda>_. None) snapshot_abc ''nobody'' None None 20 None
     = MyError (''User '' @ [CHR 0x27] @ ''nobody'' @ [CHR 0x27] @ '' not found'')"
proof -
  have "find_user ''nobody'' (users snapshot_abc) = None" by code_simp
  moreover have "updated_after_filter (\<lambda>_. None) None = Inr None"
    by (simp add: updated_after_filter_def)
  ultimately show ?thesis by (rule get_my_issues_unknown_user)
qed

subsection \<open>Detection of the stores\<close>

lemma has_keys_iff: "has_keys req r \<longleftrightarrow> set req \<subseteq> fst ` set r"
  by (auto simp add: has_keys_def has_key_def list_all_iff)

lemma is_issue_record_iff:
  "is_issue_record r \<longleftrightarrow> {''number'', ''teamId'', ''stateId'', ''title''} \<subseteq> fst ` set r"
  by (simp add: is_issue_record_def has_keys_iff)

lemma is_issue_record_extra: "is_issue_record r \<Longrightarrow> is_issue_record (r @ extra)"
  by (auto simp add: is_issue_record_iff)

lemma classify_cases:
  assumes "classify n val r = Inr r'"
  shows "r' = r
    \<or> (ds_issues r = None \<and> r' = r\<lparr>ds_issues := Some n\<rparr>)
    \<or> (ds_teams r = None \<and> r' = r\<lparr>ds_teams := Some n\<rparr>)
    \<or> (n \<notin> set (or_empty (ds_users r)) \<and> r' = r\<lparr>ds_users := Some (or_empty (ds_users r) @ [n])\<rparr>)
    \<or> (n \<notin> set (or_empty (ds_workflow_states r))
        \<and> r' = r\<lparr>ds_workflow_states := Some (or_empty (ds_workflow_states r) @ [n])\<rparr>)
    \<or> (ds_comments r = None \<and> r' = r\<lparr>ds_comments := Some n\<rparr>)
    \<or> (ds_projects r = None \<and> r' = r\<lparr>ds_projects := Some n\<rparr>)"
proof (cases "is_issue_record val \<and> ds_issues r = None")
  case True
  with assms show ?thesis by (simp add: classify_def)
next
  case a1: False
  show ?thesis
  proof (cases "is_team_record val \<and> ds_teams r = None")
    case True
    with assms a1 show ?thesis by (simp add: classify_def)
  next
    case a2: False
    show ?thesis
    proof (cases "is_user_record val \<and> n \<notin> set (or_empty (ds_users r))")
      case True
      with assms a1 a2 show ?thesis by (simp add: classify_def)
    next
      case a3: False
      show ?thesis
      proof (cases "is_workflow_state_record val")
        case (Inl e)
        with assms a1 a2 a3 show ?thesis by (simp add: classify_def)
      next
        case (Inr b)
        show ?thesis
        proof (cases "b \<and> n \<notin> set (or_empty (ds_workflow_states r))")
          case True
          with assms a1 a2 a3 Inr show ?thesis by (simp add: classify_def)
        next
          case a4: False
          show ?thesis
          proof (cases "is_comment_record val \<and> ds_comments r = None")
            case True
            with assms a1 a2 a3 Inr a4 show ?thesis by (simp add: classify_def)
          next
            case a5: False
            with assms a1 a2 a3 Inr a4 show ?thesis
              by (cases "is_project_record val \<and> ds_projects r = None") (simp_all add: classify_def)
          qed
        qed
      qed
    qed
  qed
qed


lemma detect_step_cases:
  "detect_step r store = r
    \<or> (ds_issues r = None \<and> detect_step r store = r\<lparr>ds_issues := Some (the (fst store))\<rparr>)
    \<or> (ds_teams r = None \<and> detect_step r store = r\<lparr>ds_teams := Some (the (fst store))\<rparr>)
    \<or> (the (fst store) \<notin> set (or_empty (ds_users r))
        \<and> detect_step r store = r\<lparr>ds_users := Some (or_empty (ds_users r) @ [the (fst store)])\<rparr>)
    \<or> (the (fst store) \<notin> set (or_empty (ds_workflow_states r))
        \<and> detect_step r store
            = r\<lparr>ds_workflow_states := Some (or_empty (ds_workflow_states r) @ [the (fst store)])\<rparr>)
    \<or> (ds_comments r = None \<and> detect_step r store = r\<lparr>ds_comments := Some (the (fst store))\<rparr>)
    \<or> (ds_projects r = None \<and> detect_step r store = r\<lparr>ds_projects := Some (the (fst store))\<rparr>)"
proof (cases "skipped_name (fst store)")
  case True
  then show ?thesis by (simp add: detect_step_def)
next
  case False
  show ?thesis
  proof (cases "snd store")
    case ReadFails
    with False show ?thesis by (simp add: detect_step_def)
  next
    case NoRecord
    with False show ?thesis by (simp add: detect_step_def)
  next
    case (FirstValue v)
    show ?thesis
    proof (cases "\<exists>val. v = PDict val")
      case no: False
      with False FirstValue show ?thesis by (cases v) (simp_all add: detect_step_def)
    next
      case True
      then obtain val where v: "v = PDict val" by blast
      show ?thesis
      proof (cases "classify (the (fst store)) val r")
        case (Inl e)
        with False FirstValue v show ?thesis by (simp add: detect_step_def)
      next
        case (Inr r')
        then have "detect_step r store = r'"
          using False FirstValue v by (simp add: detect_step_def)
        with classify_cases [OF Inr] show ?thesis by simp
      qed
    qed
  qed
qed

lemma step_keeps_issues: "ds_issues r = Some x \<Longrightarrow> ds_issues (detect_step r store) = Some x"
  using detect_step_cases [of r store] by (elim disjE) auto

lemma step_keeps_teams: "ds_teams r = Some x \<Longrightarrow> ds_teams (detect_step r store) = Some x"
  using detect_step_cases [of r store] by (elim disjE) auto

lemma step_keeps_comments: "ds_comments r = Some x \<Longrightarrow> ds_comments (detect_step r store) = Some x"
  using detect_step_cases [of r store] by (elim disjE) auto

lemma step_keeps_projects: "ds_projects r = Some x \<Longrightarrow> ds_projects (detect_step r store) = Some x"
  using detect_step_cases [of r store] by (elim disjE) auto

lemma step_grows_users:
  "set (or_empty (ds_users r)) \<subseteq> set (or_empty (ds_users (detect_step r store)))"
  using detect_step_cases [of r store] by (elim disjE) (auto simp add: or_empty_def)

lemma step_grows_states:
  "set (or_empty (ds_workflow_states r))
     \<subseteq> set (or_empty (ds_workflow_states (detect_step r store)))"
  using detect_step_cases [of r store] by (elim disjE) (auto simp add: or_empty_def)

lemma step_distinct_users:
  "distinct (or_empty (ds_users r)) \<Longrightarrow> distinct (or_empty (ds_users (detect_step r store)))"
  using detect_step_cases [of r store] by (elim disjE) (auto simp add: or_empty_def)

lemma step_distinct_states:
  "distinct (or_empty (ds_workflow_states r))
     \<Longrightarrow> distinct (or_empty (ds_workflow_states (detect_step r store)))"
  using detect_step_cases [of r store] by (elim disjE) (auto simp add: or_empty_def)

lemma run_keeps_issues: "ds_issues r = Some x \<Longrightarrow> ds_issues (detect_from r stores) = Some x"
  unfolding detect_from_def by (induction stores arbitrary: r) (simp_all add: step_keeps_issues)

lemma run_keeps_teams: "ds_teams r = Some x \<Longrightarrow> ds_teams (detect_from r stores) = Some x"
  unfolding detect_from_def by (induction stores arbitrary: r) (simp_all add: step_keeps_teams)

lemma run_keeps_comments: "ds_comments r = Some x \<Longrightarrow> ds_comments (detect_from r stores) = Some x"
  unfolding detect_from_def by (induction stores arbitrary: r) (simp_all add: step_keeps_comments)

lemma run_keeps_projects: "ds_projects r = Some x \<Longrightarrow> ds_projects (detect_from r stores) = Some x"
  unfolding detect_from_def by (induction stores arbitrary: r) (simp_all add: step_keeps_projects)

lemma run_grows_users:
  "set (or_empty (ds_users r)) \<subseteq> set (or_empty (ds_users (detect_from r stores)))"
  unfolding detect_from_def
proof (induction stores arbitrary: r)
  case Nil
  show ?case by simp
next
  case (Cons s stores)
  from step_grows_users [of r s] Cons [of "detect_step r s"] show ?case by auto
qed

lemma run_grows_states:
  "set (or_empty (ds_workflow_states r))
     \<subseteq> set (or_empty (ds_workflow_states (detect_from r stores)))"
  unfolding detect_from_def
proof (induction stores arbitrary: r)
  case Nil
  show ?case by simp
next
  case (Cons s stores)
  from step_grows_states [of r s] Cons [of "detect_step r s"] show ?case by auto
qed

lemma run_distinct_users:
  "distinct (or_empty (ds_users r)) \<Longrightarrow> distinct (or_empty (ds_users (detect_from r stores)))"
  unfolding detect_from_def by (induction stores arbitrary: r) (simp_all add: step_distinct_users)

lemma run_distinct_states:
  "distinct (or_empty (ds_workflow_states r))
     \<Longrightarrow> distinct (or_empty (ds_workflow_states (detect_from r stores)))"
  unfolding detect_from_def by (induction stores arbitrary: r) (simp_all add: step_distinct_states)

lemma detect_from_Cons: "detect_from r (s # stores) = detect_from (detect_step r s) stores"
  by (simp add: detect_from_def)

lemma step_sampled:
  "\<not> skipped_name (Some n) \<Longrightarrow>
     detect_step r (Some n, FirstValue (PDict val))
       = (case classify n val r of Inl e \<Rightarrow> r | Inr r' \<Rightarrow> r')"
  by (simp add: detect_step_def)

lemma classify_arms:
  "classify n val r =
     (if issue_arm val r then Inr (r\<lparr>ds_issues := Some n\<rparr>)
      else if team_arm val r then Inr (r\<lparr>ds_teams := Some n\<rparr>)
      else if user_arm n val r then Inr (r\<lparr>ds_users := Some (or_empty (ds_users r) @ [n])\<rparr>)
      else case is_workflow_state_record val of
             Inl e \<Rightarrow> Inl e
           | Inr is_state \<Rightarrow>
               if is_state \<and> n \<notin> set (or_empty (ds_workflow_states r))
                 then Inr (r\<lparr>ds_workflow_states :=
                             Some (or_empty (ds_workflow_states r) @ [n])\<rparr>)
               else if comment_arm val r then Inr (r\<lparr>ds_comments := Some n\<rparr>)
               else if project_arm val r then Inr (r\<lparr>ds_projects := Some n\<rparr>)
               else Inr r)"
  unfolding classify_def issue_arm_def team_arm_def user_arm_def comment_arm_def project_arm_def
  by (rule refl)

text \<open>
  C8, as stated, at two stores read in this order: the first record of "aaa" has the
  four issue fields and an extra one, the first record of "bbb" has the four issue
  fields and also \<open>key = "ENG"\<close> and \<open>name\<close>. The first predicate the record of
  "bbb" matches is the issue predicate, but the issue store is already found, and the
  chain goes on to the team test: "bbb" becomes the team store.
\<close>

theorem detect_stores_falls_through:
  "is_issue_record (issue_fields @ [(''key'', PStr ''ENG''), (''name'', PStr ''Eng'')])
   \<and> ds_issues (detect_stores two_issue_like_stores) = Some ''aaa''
   \<and> ds_teams (detect_stores two_issue_like_stores) = Some ''bbb''"
  by code_simp

text \<open>
  C8, amended. For a store that is sampled (its name is not skipped and its first
  record is a dictionary): the issue predicate holds exactly when the record has the
  four fields, whatever else it has, and such a store becomes the issue store when
  none was found earlier and stays it. Each store is assigned by the first branch, in
  the order Issue, Team, User, WorkflowState, Comment, Project, whose predicate holds
  and whose place is free (no store kept yet, or, for User and WorkflowState, the
  store's name not yet in the list); a predicate whose place is taken lets the store
  fall through to the later branches. Later stores never replace the issue, team,
  comment or project store; the user and workflow-state lists only grow and hold no
  name twice.
\<close>

theorem detect_stores_first_free_match:
  assumes "\<not> skipped_name (Some n)"
  shows "(is_issue_record val \<longleftrightarrow> {''number'', ''teamId'', ''stateId'', ''title''} \<subseteq> fst ` set val)
    \<and> (is_issue_record val \<longrightarrow> is_issue_record (val @ extra))
    \<and> (is_issue_record val \<and> ds_issues r = None \<longrightarrow>
         ds_issues (detect_from r ((Some n, FirstValue (PDict val)) # stores)) = Some n)
    \<and> detect_step r (Some n, FirstValue (PDict val))
        = (if issue_arm val r then r\<lparr>ds_issues := Some n\<rparr>
           else if team_arm val r then r\<lparr>ds_teams := Some n\<rparr>
           else if user_arm n val r then r\<lparr>ds_users := Some (or_empty (ds_users r) @ [n])\<rparr>
           else if state_arm n val r
             then r\<lparr>ds_workflow_states := Some (or_empty (ds_workflow_states r) @ [n])\<rparr>
           else if \<not> type_hashable val then r
           else if comment_arm val r then r\<lparr>ds_comments := Some n\<rparr>
           else if project_arm val r then r\<lparr>ds_projects := Some n\<rparr>
           else r)
    \<and> (ds_issues r = Some x \<longrightarrow> ds_issues (detect_from r stores) = Some x)
    \<and> (ds_teams r = Some x \<longrightarrow> ds_teams (detect_from r stores) = Some x)
    \<and> (ds_comments r = Some x \<longrightarrow> ds_comments (detect_from r stores) = Some x)
    \<and> (ds_projects r = Some x \<longrightarrow> ds_projects (detect_from r stores) = Some x)
    \<and> set (or_empty (ds_users r)) \<subseteq> set (or_empty (ds_users (detect_from r stores)))
    \<and> set (or_empty (ds_workflow_states r))
        \<subseteq> set (or_empty (ds_workflow_states (detect_from r stores)))
    \<and> distinct (or_empty (ds_users (detect_stores stores)))
    \<and> distinct (or_empty (ds_workflow_states (detect_stores stores)))"
proof -
  have step: "detect_step r (Some n, FirstValue (PDict val))
        = (if issue_arm val r then r\<lparr>ds_issues := Some n\<rparr>
           else if team_arm val r then r\<lparr>ds_teams := Some n\<rparr>
           else if user_arm n val r then r\<lparr>ds_users := Some (or_empty (ds_users r) @ [n])\<rparr>
           else if state_arm n val r
             then r\<lparr>ds_workflow_states := Some (or_empty (ds_workflow_states r) @ [n])\<rparr>
           else if \<not> type_hashable val then r
           else if comment_arm val r then r\<lparr>ds_comments := Some n\<rparr>
           else if project_arm val r then r\<lparr>ds_projects := Some n\<rparr>
           else r)"
  proof (cases "is_workflow_state_record val")
    case (Inl e)
    then have "\<not> type_hashable val" "\<not> state_arm n val r"
      by (simp_all add: type_hashable_def state_arm_def)
    with Inl show ?thesis
      by (simp add: step_sampled [OF assms] classify_arms)
  next
    case (Inr b)
    then have "type_hashable val"
      and "state_arm n val r \<longleftrightarrow> b \<and> n \<notin> set (or_empty (ds_workflow_states r))"
      by (simp_all add: type_hashable_def state_arm_def)
    with Inr show ?thesis
      by (simp add: step_sampled [OF assms] classify_arms)
  qed
  have first: "is_issue_record val \<and> ds_issues r = None \<longrightarrow>
         ds_issues (detect_from r ((Some n, FirstValue (PDict val)) # stores)) = Some n"
  proof
    assume a: "is_issue_record val \<and> ds_issues r = None"
    then have "detect_step r (Some n, FirstValue (PDict val)) = r\<lparr>ds_issues := Some n\<rparr>"
      by (simp add: step issue_arm_def)
    then show "ds_issues (detect_from r ((Some n, FirstValue (PDict val)) # stores)) = Some n"
      by (simp add: detect_from_Cons run_keeps_issues)
  qed
  have du: "distinct (or_empty (ds_users (detect_stores stores)))"
    unfolding detect_stores_def by (rule run_distinct_users) (simp add: or_empty_def)
  have dw: "distinct (or_empty (ds_workflow_states (detect_stores stores)))"
    unfolding detect_stores_def by (rule run_distinct_states) (simp add: or_empty_def)
  show ?thesis
    using step first du dw is_issue_record_iff [of val] is_issue_record_extra [of val extra]
      run_keeps_issues [of r x stores] run_keeps_teams [of r x stores]
      run_keeps_comments [of r x stores] run_keeps_projects [of r x stores]
      run_grows_users [of r stores] run_grows_states [of r stores]
    by blast
qed

theorem detect_stores_first_free_match_witness:
  "ds_issues (detect_stores two_issue_like_stores) = Some ''aaa''"
proof -
  have visible: "\<not> skipped_name (Some ''aaa'')"
    by code_simp
  have issue: "is_issue_record (issue_fields @ [(''extra'', PInt 1)])"
    by code_simp
  from detect_stores_first_free_match [OF visible, of "issue_fields @ [(''extra'', PInt 1)]" "[]"
      "\<lparr>ds_issues = None, ds_teams = None, ds_users = Some [],
        ds_workflow_states = Some [], ds_comments = None, ds_projects = None\<rparr>"
      "[(Some ''bbb'', FirstValue (PDict (issue_fields
           @ [(''key'', PStr ''ENG''), (''name'', PStr ''Eng'')])))]" "''aaa''"] issue
  show ?thesis
    by (simp add: detect_stores_def two_issue_like_stores_def)
qed

subsection \<open>Plain text of a comment body\<close>








subsection \<open>Identifiers of loaded issues\<close>

lemma store_entry_values:
  "(k', e) \<in> set (store_entry k v d) \<Longrightarrow> e = v \<or> (\<exists>k''. (k'', e) \<in> set d)"
  by (induction d) (auto split: if_splits)

lemma bind_Inr: "bind m f = Inr y \<Longrightarrow> \<exists>x. m = Inr x \<and> f x = Inr y"
  by (cases m) (simp_all add: bind_def)

lemma add_issue_entry:
  assumes "add_issue cs tm val d = Inr d'"
  shows "\<exists>k e. d' = store_entry k e d
           \<and> ie_identifier e = make_identifier cs tm (ie_teamId e) (ie_number e)"
proof (cases val)
  case (PDict r)
  show ?thesis
  proof (cases "map_of r ''id''")
    case None
    with assms PDict show ?thesis by (simp add: add_issue_def Let_def split: if_splits)
  next
    case (Some i)
    with assms PDict have h: "hashable (dget r ''teamId'')" "hashable i"
      by (simp_all add: add_issue_def Let_def split: if_splits)
    with assms PDict Some show ?thesis
      by (simp add: add_issue_def Let_def) (metis issue_entry.select_convs(2,4,6))
  qed
qed (use assms in \<open>simp_all add: add_issue_def\<close>)

lemma for_each_add_issue:
  "for_each (add_issue cs tm) vals d = Inr d' \<Longrightarrow>
     \<forall>p\<in>set d. ie_identifier (snd p)
        = make_identifier cs tm (ie_teamId (snd p)) (ie_number (snd p)) \<Longrightarrow>
     \<forall>p\<in>set d'. ie_identifier (snd p)
        = make_identifier cs tm (ie_teamId (snd p)) (ie_number (snd p))"
proof (induction vals arbitrary: d)
  case Nil
  then show ?case by simp
next
  case (Cons val vals)
  from Cons.prems(1) obtain d1 where
    d1: "add_issue cs tm val d = Inr d1" "for_each (add_issue cs tm) vals d1 = Inr d'"
    by (auto dest: bind_Inr)
  from add_issue_entry [OF d1(1)] obtain k e where
    e: "d1 = store_entry k e d"
       "ie_identifier e = make_identifier cs tm (ie_teamId e) (ie_number e)"
    by blast
  have "\<forall>p\<in>set d1. ie_identifier (snd p)
        = make_identifier cs tm (ie_teamId (snd p)) (ie_number (snd p))"
  proof
    fix p assume "p \<in> set d1"
    then have "(fst p, snd p) \<in> set (store_entry k e d)" using e(1) by simp
    from store_entry_values [OF this] have "snd p = e \<or> (\<exists>k''. (k'', snd p) \<in> set d)" .
    with e(2) Cons.prems(2)
    show "ie_identifier (snd p) = make_identifier cs tm (ie_teamId (snd p)) (ie_number (snd p))"
      by force
  qed
  with Cons.IH [OF d1(2)] show ?case .
qed

lemma reload_cache_from_issues:
  assumes "reload_cache_from jl cs stores db now = Inr snap"
  shows "\<forall>p\<in>set (ld_issues snap). ie_identifier (snd p)
           = make_identifier cs (ld_teams snap) (ie_teamId (snd p)) (ie_number (snd p))"
proof -
  from assms obtain tm um sm im cm where
    im: "(if truthy (ds_issues stores)
           then for_each (add_issue cs tm) (load_from_store db (the (ds_issues stores))) []
           else Inr []) = Inr im"
    and snap: "snap = \<lparr>ld_teams = tm, ld_users = um, ld_states = sm, ld_issues = im,
          ld_comments = fst cm, ld_comments_by_issue = snd cm, ld_loaded_at = now\<rparr>"
    unfolding reload_cache_from_def by (blast dest!: bind_Inr)
  have "\<forall>p\<in>set im. ie_identifier (snd p)
           = make_identifier cs tm (ie_teamId (snd p)) (ie_number (snd p))"
  proof (cases "truthy (ds_issues stores)")
    case True
    with im for_each_add_issue [of cs tm _ "[]" im] show ?thesis by simp
  next
    case False
    with im show ?thesis by simp
  qed
  with snap show ?thesis by simp
qed

lemma digit_nth: "k < 10 \<Longrightarrow> digit_chars ! k \<in> set digit_chars"
proof -
  assume "k < 10"
  moreover have "length digit_chars = 10" by (simp add: digit_chars_def)
  ultimately show ?thesis using nth_mem [of k digit_chars] by simp
qed

lemma nat_digits_digits: "nat_digits n \<noteq> [] \<and> set (nat_digits n) \<subseteq> set digit_chars"
proof (induction n rule: nat_digits.induct)
  case (1 n)
  show ?case
  proof (cases "n < 10")
    case True
    then show ?thesis by (subst (1 2) nat_digits.simps) (simp add: digit_nth)
  next
    case False
    with 1 have "nat_digits (n div 10) \<noteq> [] \<and> set (nat_digits (n div 10)) \<subseteq> set digit_chars"
      by simp
    moreover have "digit_chars ! (n mod 10) \<in> set digit_chars" by (rule digit_nth) simp
    ultimately show ?thesis using False by (subst (1 2) nat_digits.simps) simp
  qed
qed

lemma hyphen_not_in_class: "\<not> (CHR ''-'' \<in> set upper_letters \<or> CHR ''-'' \<in> set digit_chars)"
  by (simp add: upper_letters_def digit_chars_def)

lemma pattern_match:
  assumes "key \<noteq> []"
    and "hd key \<in> set upper_letters \<or> hd key = CHR ''?''"
    and "\<forall>x\<in>set (tl key). x \<in> set upper_letters \<or> x \<in> set digit_chars"
    and "ds \<noteq> []" and "set ds \<subseteq> set digit_chars"
  shows "matches_identifier_pattern (key @ ''-'' @ ds)"
proof -
  obtain c rest where key: "key = c # rest" using assms(1) by (cases key) auto
  have "dropWhile (\<lambda>x. x \<in> set upper_letters \<or> x \<in> set digit_chars) (rest @ CHR ''-'' # ds)
      = CHR ''-'' # ds"
    using assms(3) key hyphen_not_in_class
    by (subst dropWhile_append3) (simp_all add: dropWhile_eq_Nil_conv)
  with assms key show ?thesis
    by (auto simp add: matches_identifier_pattern_def list_all_iff)
qed

lemma example_load:
  "reload_cache_from (\<lambda>_. None) (\<lambda>_. []) example_stores example_db 0 = Inr example_snapshot"
  by code_simp

text \<open>
  C3, as stated, at a load of the teams (key ENG), (key Ops), (key ???) and of four
  issues, one for each team and one for a team that is not there: the identifiers are
  ENG-7, Ops-8, ???-9 and ???-10. The second has a resolvable team and does not match
  the pattern; the third uses ??? although its team is found.
\<close>

theorem loaded_identifier_not_always_well_formed:
  "(case reload_cache_from (\<lambda>_. None) (\<lambda>_. []) example_stores example_db 0 of
      Inl err \<Rightarrow> []
    | Inr snap \<Rightarrow>
        map (\<lambda>(k, e). (ie_identifier e, matches_identifier_pattern (ie_identifier e),
                        map_of (ld_teams snap) (key_of (ie_teamId e)) = None))
          (ld_issues snap))
   = [(''ENG-7'', True, False), (''Ops-8'', False, False), (''???-9'', False, False),
      (''???-10'', False, True)]"
  by code_simp

text \<open>
  C3, amended. For every issue of a loaded snapshot, the identifier is the text of the
  key of the team that the team map of the same load holds under the issue's
  \<open>teamId\<close>, a hyphen, and the text of the issue's number; when the map holds no
  such team it is \<open>???\<close>, a hyphen and the text of the number. When the team is
  found, its key is a non-empty string of capital letters and digits after a first
  capital letter (or question mark), and the number is a non-negative integer, the
  identifier matches the pattern.
\<close>

theorem loaded_identifier:
  assumes "reload_cache_from jl cs stores db now = Inr snap"
    and "(k, e) \<in> set (ld_issues snap)"
  shows "(\<forall>team. map_of (ld_teams snap) (key_of (ie_teamId e)) = Some team \<longrightarrow>
            ie_identifier e = py_str cs (te_key team) @ ''-'' @ py_str cs (ie_number e))
       \<and> (map_of (ld_teams snap) (key_of (ie_teamId e)) = None \<longrightarrow>
            ie_identifier e = ''???-'' @ py_str cs (ie_number e))
       \<and> (\<forall>team key n. map_of (ld_teams snap) (key_of (ie_teamId e)) = Some team
            \<and> te_key team = PStr key \<and> key \<noteq> []
            \<and> (hd key \<in> set upper_letters \<or> hd key = CHR ''?'')
            \<and> (\<forall>x\<in>set (tl key). x \<in> set upper_letters \<or> x \<in> set digit_chars)
            \<and> ie_number e = PInt n \<and> 0 \<le> n
            \<longrightarrow> matches_identifier_pattern (ie_identifier e))"
proof -
  from reload_cache_from_issues [OF assms(1)] assms(2)
  have ident: "ie_identifier e
      = make_identifier cs (ld_teams snap) (ie_teamId e) (ie_number e)"
    by force
  have found: "\<forall>team. map_of (ld_teams snap) (key_of (ie_teamId e)) = Some team \<longrightarrow>
            ie_identifier e = py_str cs (te_key team) @ ''-'' @ py_str cs (ie_number e)"
    by (simp add: ident make_identifier_def team_key_text_def)
  have missing: "map_of (ld_teams snap) (key_of (ie_teamId e)) = None \<longrightarrow>
            ie_identifier e = ''???-'' @ py_str cs (ie_number e)"
    by (simp add: ident make_identifier_def team_key_text_def)
  have pattern: "\<forall>team key n. map_of (ld_teams snap) (key_of (ie_teamId e)) = Some team
            \<and> te_key team = PStr key \<and> key \<noteq> []
            \<and> (hd key \<in> set upper_letters \<or> hd key = CHR ''?'')
            \<and> (\<forall>x\<in>set (tl key). x \<in> set upper_letters \<or> x \<in> set digit_chars)
            \<and> ie_number e = PInt n \<and> 0 \<le> n
            \<longrightarrow> matches_identifier_pattern (ie_identifier e)"
  proof (intro allI impI)
    fix team key n
    assume h: "map_of (ld_teams snap) (key_of (ie_teamId e)) = Some team
            \<and> te_key team = PStr key \<and> key \<noteq> []
            \<and> (hd key \<in> set upper_letters \<or> hd key = CHR ''?'')
            \<and> (\<forall>x\<in>set (tl key). x \<in> set upper_letters \<or> x \<in> set digit_chars)
            \<and> ie_number e = PInt n \<and> 0 \<le> n"
    then have "ie_identifier e = key @ ''-'' @ nat_digits (nat n)"
      using found by (simp add: py_str_def int_str_def)
    moreover have "matches_identifier_pattern (key @ ''-'' @ nat_digits (nat n))"
      using h nat_digits_digits [of "nat n"] by (intro pattern_match) simp_all
    ultimately show "matches_identifier_pattern (ie_identifier e)" by simp
  qed
  from found missing pattern show ?thesis by blast
qed

theorem loaded_identifier_witness:
  "ie_identifier (snd (issue_of ''i1'' ''ENG-7'' ''t1'' 7)) = ''ENG-7''
   \<and> matches_identifier_pattern (ie_identifier (snd (issue_of ''i1'' ''ENG-7'' ''t1'' 7)))
   \<and> ie_identifier (snd (issue_of ''i4'' ''???-10'' ''gone'' 10)) = ''???-10''"
proof -
  have in1: "(PStr ''i1'', snd (issue_of ''i1'' ''ENG-7'' ''t1'' 7)) \<in> set (ld_issues example_snapshot)"
    by (simp add: example_snapshot_def issue_of_def)
  have in4: "(PStr ''i4'', snd (issue_of ''i4'' ''???-10'' ''gone'' 10)) \<in> set (ld_issues example_snapshot)"
    by (simp add: example_snapshot_def issue_of_def)
  have t1: "map_of (ld_teams example_snapshot) (key_of (ie_teamId (snd (issue_of ''i1'' ''ENG-7'' ''t1'' 7))))
      = Some (snd (team_of ''t1'' ''ENG'' ''Engineering''))"
    by (simp add: example_snapshot_def issue_of_def team_of_def)
  have t4: "map_of (ld_teams example_snapshot) (key_of (ie_teamId (snd (issue_of ''i4'' ''???-10'' ''gone'' 10))))
      = None"
    by (simp add: example_snapshot_def issue_of_def team_of_def)
  have k1: "te_key (snd (team_of ''t1'' ''ENG'' ''Engineering'')) = PStr ''ENG''"
    "hd ''ENG'' \<in> set upper_letters"
    "\<forall>x\<in>set (tl ''ENG''). x \<in> set upper_letters \<or> x \<in> set digit_chars"
    "ie_number (snd (issue_of ''i1'' ''ENG-7'' ''t1'' 7)) = PInt 7"
    by (simp_all add: team_of_def issue_of_def upper_letters_def)
  from loaded_identifier [OF example_load in1] t1 k1
  have "matches_identifier_pattern (ie_identifier (snd (issue_of ''i1'' ''ENG-7'' ''t1'' 7)))"
    by (elim conjE allE [of _ "snd (team_of ''t1'' ''ENG'' ''Engineering'')"] allE [of _ "''ENG''"] allE [of _ 7]) simp
  moreover from loaded_identifier [OF example_load in4] t4
  have "ie_identifier (snd (issue_of ''i4'' ''???-10'' ''gone'' 10)) = ''???-'' @ py_str (\<lambda>_. []) (ie_number (snd (issue_of ''i4'' ''???-10'' ''gone'' 10)))"
    by blast
  ultimately show ?thesis by (simp add: issue_of_def)
qed

end
